theory Spec2Isabelle
  imports Main
begin

section \<open>Content control resolution (app/content\_resolver.py)\<close>

text \<open>
  Strings are Python \<open>str\<close> values over the characters Isabelle's \<open>char\<close> has
  (code points below 256). A raised exception is a value: its message.
\<close>

type_synonym exn = string

subsection \<open>String helpers of the Python standard library\<close>

text \<open>\<open>str.lower\<close> on one character: the 26 capital letters of ASCII and the 30
  capital letters of Latin-1 (0xC0 to 0xDE without the multiplication sign 0xD7) change.\<close>

definition capital_letters :: "char list" where
  "capital_letters = ''ABCDEFGHIJKLMNOPQRSTUVWXYZ''
     @ [CHR 0xC0, CHR 0xC1, CHR 0xC2, CHR 0xC3, CHR 0xC4, CHR 0xC5, CHR 0xC6, CHR 0xC7,
       CHR 0xC8, CHR 0xC9, CHR 0xCA, CHR 0xCB, CHR 0xCC, CHR 0xCD, CHR 0xCE, CHR 0xCF,
       CHR 0xD0, CHR 0xD1, CHR 0xD2, CHR 0xD3, CHR 0xD4, CHR 0xD5, CHR 0xD6, CHR 0xD8,
       CHR 0xD9, CHR 0xDA, CHR 0xDB, CHR 0xDC, CHR 0xDD, CHR 0xDE]"

definition small_letters :: "char list" where
  "small_letters = ''abcdefghijklmnopqrstuvwxyz''
     @ [CHR 0xE0, CHR 0xE1, CHR 0xE2, CHR 0xE3, CHR 0xE4, CHR 0xE5, CHR 0xE6, CHR 0xE7,
       CHR 0xE8, CHR 0xE9, CHR 0xEA, CHR 0xEB, CHR 0xEC, CHR 0xED, CHR 0xEE, CHR 0xEF,
       CHR 0xF0, CHR 0xF1, CHR 0xF2, CHR 0xF3, CHR 0xF4, CHR 0xF5, CHR 0xF6, CHR 0xF8,
       CHR 0xF9, CHR 0xFA, CHR 0xFB, CHR 0xFC, CHR 0xFD, CHR 0xFE]"

definition lower_char :: "char \<Rightarrow> char" where
  "lower_char c =
     (case map_of (zip capital_letters small_letters) c of
        Some l \<Rightarrow> l
      | None \<Rightarrow> c)"

definition lower :: "string \<Rightarrow> string" where
  "lower s = map lower_char s"

text \<open>\<open>str.strip(chars)\<close>: characters of \<open>chars\<close> removed from both ends.\<close>

definition strip_chars :: "char list \<Rightarrow> string \<Rightarrow> string" where
  "strip_chars cs s =
     rev (dropWhile (\<lambda>c. c \<in> set cs) (rev (dropWhile (\<lambda>c. c \<in> set cs) s)))"

text \<open>\<open>str.isspace\<close> on one character: tab, line feed, vertical tab, form feed, carriage
  return, the four separators 0x1C to 0x1F, space, and of Latin-1 0x85 and 0xA0.\<close>

definition isspace :: "char \<Rightarrow> bool" where
  "isspace c = (c \<in> set [CHR 0x09, CHR 0x0A, CHR 0x0B, CHR 0x0C, CHR 0x0D, CHR 0x1C, CHR 0x1D,
     CHR 0x1E, CHR 0x1F, CHR 0x20, CHR 0x85, CHR 0xA0])"

definition strip :: "string \<Rightarrow> string" where
  "strip s = rev (dropWhile isspace (rev (dropWhile isspace s)))"

definition starts_with :: "string \<Rightarrow> string \<Rightarrow> bool" where
  "starts_with old s = (take (length old) s = old)"

text \<open>\<open>str.replace(old, new)\<close>: every occurrence of \<open>old\<close>, left to right, without
  overlap. The counter is the number of characters of the last occurrence still to skip.\<close>

fun replace_from :: "string \<Rightarrow> string \<Rightarrow> nat \<Rightarrow> string \<Rightarrow> string" where
  "replace_from old new k [] = []"
| "replace_from old new k (c # cs) =
     (if 0 < k then replace_from old new (k - 1) cs
      else if starts_with old (c # cs) then new @ replace_from old new (length old - 1) cs
      else c # replace_from old new 0 cs)"

definition str_replace :: "string \<Rightarrow> string \<Rightarrow> string \<Rightarrow> string" where
  "str_replace old new s =
     (if old = [] then new @ concat (map (\<lambda>c. c # new) s) else replace_from old new 0 s)"

subsection \<open>The reference patterns\<close>

text \<open>
  The four text patterns of \<open>PATTERNS\<close> have one shape: a literal opening, a group made
  of a literal start and one or more characters other than a stop character, and a literal
  closing; all are compiled with \<open>re.IGNORECASE\<close>.
  \<^item> \<open>double_curly\<close>: \<^verbatim>\<open>\{\{content:([^}]+)\}\}\<close>
  \<^item> \<open>content_block\<close>: \<^verbatim>\<open>\{\{(dc-[^}]+)\}\}\<close>
  \<^item> \<open>include_directive\<close>: \<^verbatim>\<open>@include\(([^)]+)\)\<close>
  \<^item> \<open>sharedo_content\<close>: \<^verbatim>\<open>\[content:([^\]]+)\]\<close>
  The fifth, \<open>word_content_control\<close>, is skipped by the extractor.
\<close>

record pattern =
  prefix_lit :: string
  group_lit :: string
  stop_char :: char
  suffix_lit :: string

definition double_curly :: pattern where
  "double_curly = \<lparr>prefix_lit = ''{{content:'', group_lit = [], stop_char = CHR ''}'', suffix_lit = ''}}''\<rparr>"

definition content_block :: pattern where
  "content_block = \<lparr>prefix_lit = ''{{'', group_lit = ''dc-'', stop_char = CHR ''}'', suffix_lit = ''}}''\<rparr>"

definition include_directive :: pattern where
  "include_directive = \<lparr>prefix_lit = ''@include('', group_lit = [], stop_char = CHR '')'', suffix_lit = '')''\<rparr>"

definition sharedo_content :: pattern where
  "sharedo_content = \<lparr>prefix_lit = ''[content:'', group_lit = [], stop_char = CHR '']'', suffix_lit = '']''\<rparr>"

text \<open>\<open>PATTERNS.items()\<close> in insertion order, without \<open>word_content_control\<close>.\<close>

definition PATTERNS :: "(string \<times> pattern) list" where
  "PATTERNS = [(''double_curly'', double_curly), (''content_block'', content_block),
     (''include_directive'', include_directive), (''sharedo_content'', sharedo_content)]"

text \<open>A literal matched without regard to case; the result is the text after it.\<close>

fun literal :: "string \<Rightarrow> string \<Rightarrow> string option" where
  "literal [] s = Some s"
| "literal (p # ps) [] = None"
| "literal (p # ps) (c # cs) = (if lower_char c = lower_char p then literal ps cs else None)"

text \<open>
  A match of the pattern at the start of \<open>s\<close>: the group and the length of the match.
  \<open>[^x]+\<close> is greedy and the closing starts with \<open>x\<close>, so the group runs to the first
  stop character.
\<close>

definition match_at :: "pattern \<Rightarrow> string \<Rightarrow> (string \<times> nat) option" where
  "match_at p s =
     (case literal (prefix_lit p) s of
        None \<Rightarrow> None
      | Some r1 \<Rightarrow>
          (case literal (group_lit p) r1 of
             None \<Rightarrow> None
           | Some r2 \<Rightarrow>
               let body = takeWhile (\<lambda>c. c \<noteq> stop_char p) r2;
                   r3 = dropWhile (\<lambda>c. c \<noteq> stop_char p) r2
               in if body = [] then None
                  else (case literal (suffix_lit p) r3 of
                          None \<Rightarrow> None
                        | Some r4 \<Rightarrow>
                            Some (take (length (group_lit p) + length body) r1,
                                  length (prefix_lit p) + length (group_lit p) + length body
                                    + length (suffix_lit p)))))"

text \<open>
  \<open>pattern.finditer\<close>: the matches from left to right, without overlap, each with the
  index where it starts. \<open>pos\<close> is the index of the head of the remaining text, \<open>k\<close> the
  number of characters of the last match still to skip.
\<close>

fun finditer :: "pattern \<Rightarrow> nat \<Rightarrow> nat \<Rightarrow> string \<Rightarrow> (nat \<times> string) list" where
  "finditer p pos k [] = []"
| "finditer p pos k (c # cs) =
     (if 0 < k then finditer p (pos + 1) (k - 1) cs
      else (case match_at p (c # cs) of
              None \<Rightarrow> finditer p (pos + 1) 0 cs
            | Some (g, n) \<Rightarrow> (pos, g) # finditer p (pos + 1) (n - 1) cs))"

text \<open>\<open>pattern.findall\<close>: the groups of the matches.\<close>

definition findall :: "pattern \<Rightarrow> string \<Rightarrow> string list" where
  "findall p s = map snd (finditer p 0 0 s)"

subsection \<open>The resolver, its state and its surroundings\<close>

text \<open>
  \<open>base_path\<close> and \<open>max_depth\<close> are assigned in \<open>__init__\<close> only; they are the
  configuration. The other fields of the object change during a resolution; the five
  counters of the \<open>statistics\<close> dictionary are fields of the state.
\<close>

record config =
  base_path :: string
  max_depth :: int

record resolver =
  cache :: "string \<rightharpoonup> string"
  dependency_graph :: "string \<rightharpoonup> string set"
  resolution_stack :: "string list"
  cache_hits :: int
  cache_misses :: int
  total_resolutions :: int
  circular_references :: int
  failed_resolutions :: int

text \<open>The state \<open>__init__\<close> leaves.\<close>

definition new_resolver :: resolver where
  "new_resolver = \<lparr>cache = Map.empty, dependency_graph = Map.empty, resolution_stack = [],
     cache_hits = 0, cache_misses = 0, total_resolutions = 0, circular_references = 0,
     failed_resolutions = 0\<rparr>"

text \<open>
  What the code calls outside the repository: \<open>hashlib\<close>, \<open>pathlib\<close> and the file
  system, the document converter, and BeautifulSoup. Each is a function of the run; one
  that can raise returns the exception on the left.
  \<^item> \<open>fs_exists\<close>: \<open>Path.exists()\<close>, which raises the errors of \<open>stat\<close> it does not
    ignore (\<open>PermissionError\<close> among them);
  \<^item> \<open>convert_docx\<close>: reading the file and \<open>converter.convert\<close>, giving
    \<open>result.get('success')\<close> and \<open>result.get('html_content', '')\<close>;
  \<^item> \<open>body_fragment\<close>: the children of the parsed \<open>body\<close> joined, or the whole soup;
  \<^item> \<open>data_content_controls\<close>: the value of \<open>data-content-control\<close> of every element
    that has the attribute, in document order;
  \<^item> \<open>replace_data_content_control html ref_path wrapped\<close>: the \<open>data_attribute\<close>
    branch of \<open>_embed_content\<close>, which parses, replaces each element and prints.
\<close>

record env =
  md5_hexdigest :: "string \<Rightarrow> string"
  path_str :: "string \<Rightarrow> string"
  path_is_absolute :: "string \<Rightarrow> bool"
  path_join :: "string \<Rightarrow> string \<Rightarrow> string"
  path_with_suffix :: "string \<Rightarrow> string \<Rightarrow> exn + string"
  path_suffix :: "string \<Rightarrow> string"
  path_stem :: "string \<Rightarrow> string"
  path_relative_to :: "string \<Rightarrow> string \<Rightarrow> exn + string"
  fs_exists :: "string \<Rightarrow> exn + bool"
  fs_rglob :: "string \<Rightarrow> string \<Rightarrow> exn + string list"
  fs_read_text :: "string \<Rightarrow> exn + string"
  convert_docx :: "string \<Rightarrow> exn + bool \<times> string"
  body_fragment :: "string \<Rightarrow> exn + string"
  data_content_controls :: "string \<Rightarrow> exn + string list"
  replace_data_content_control :: "string \<Rightarrow> string \<Rightarrow> string \<Rightarrow> exn + string"

text \<open>The per-call statistics: one of the three dictionaries \<open>resolve_document\<close> returns.\<close>

record resolution_stats =
  references_found :: int
  resolved :: int
  failed :: int
  from_cache :: int

datatype call_stats =
  Error_flag string
  | No_references
  | Resolution resolution_stats

text \<open>Truth of an \<open>Optional[str]\<close>: neither \<open>None\<close> nor the empty string.\<close>

definition truthy :: "string option \<Rightarrow> bool" where
  "truthy r = (case r of None \<Rightarrow> False | Some c \<Rightarrow> c \<noteq> [])"

subsection \<open>\<open>_extract_references\<close>\<close>

definition extract_references :: "env \<Rightarrow> string \<Rightarrow> (string \<times> string) list" where
  "extract_references env content =
     (if content = [] then []
      else concat (map (\<lambda>(pattern_name, pattern).
               map (Pair pattern_name) (findall pattern content)) PATTERNS)
         @ (if CHR ''<'' \<in> set content
            then (case data_content_controls env content of
                    Inl e \<Rightarrow> []
                  | Inr refs \<Rightarrow> map (Pair ''data_attribute'') (filter (\<lambda>ref. ref \<noteq> []) refs))
            else []))"

subsection \<open>\<open>_resolve_path\<close> and \<open>_find_content_block_file\<close>\<close>

definition common_locations :: "string list" where
  "common_locations = [''templates'', ''Common/Content Blocks'', ''Content Blocks'',
     ''Documents'', ''Samples/templates'']"

fun try_locations :: "config \<Rightarrow> env \<Rightarrow> string \<Rightarrow> string list \<Rightarrow> exn + string option" where
  "try_locations cfg env ref_path [] = Inr None"
| "try_locations cfg env ref_path (location # ls) =
     (let path = path_join env (path_join env (base_path cfg) location) ref_path
      in case fs_exists env path of
           Inl e \<Rightarrow> Inl e
         | Inr True \<Rightarrow> Inr (Some path)
         | Inr False \<Rightarrow>
             (case path_with_suffix env path ''.docx'' of
                Inl e \<Rightarrow> Inl e
              | Inr path_with_ext \<Rightarrow>
                  (case fs_exists env path_with_ext of
                     Inl e \<Rightarrow> Inl e
                   | Inr True \<Rightarrow> Inr (Some path_with_ext)
                   | Inr False \<Rightarrow> try_locations cfg env ref_path ls)))"

definition resolve_path :: "config \<Rightarrow> env \<Rightarrow> string \<Rightarrow> exn + string option" where
  "resolve_path cfg env ref_path0 =
     (let ref_path = strip_chars [CHR 0x27, CHR 0x22] ref_path0;
          path = path_str env ref_path
      in case (if path_is_absolute env path then fs_exists env path else Inr False) of
           Inl e \<Rightarrow> Inl e
         | Inr True \<Rightarrow> Inr (Some path)
         | Inr False \<Rightarrow>
             (let path = path_join env (base_path cfg) ref_path
              in case fs_exists env path of
                   Inl e \<Rightarrow> Inl e
                 | Inr True \<Rightarrow> Inr (Some path)
                 | Inr False \<Rightarrow> try_locations cfg env ref_path common_locations))"

text \<open>\<open>sub in s\<close> on strings.\<close>

fun contains :: "string \<Rightarrow> string \<Rightarrow> bool" where
  "contains sub [] = (sub = [])"
| "contains sub (c # cs) = (starts_with sub (c # cs) \<or> contains sub cs)"

fun first_block_file :: "config \<Rightarrow> env \<Rightarrow> string \<Rightarrow> string list \<Rightarrow> exn + string option" where
  "first_block_file cfg env block_name [] = Inr None"
| "first_block_file cfg env block_name (file_path # fs) =
     (if contains (lower block_name) (lower (path_stem env file_path))
      then (case path_relative_to env file_path (base_path cfg) of
              Inl e \<Rightarrow> Inl e
            | Inr r \<Rightarrow> Inr (Some r))
      else first_block_file cfg env block_name fs)"

fun search_block_dirs :: "config \<Rightarrow> env \<Rightarrow> string \<Rightarrow> string list \<Rightarrow> exn + string option" where
  "search_block_dirs cfg env block_name [] = Inr None"
| "search_block_dirs cfg env block_name (search_dir # ds) =
     (case fs_exists env search_dir of
        Inl e \<Rightarrow> Inl e
      | Inr True \<Rightarrow>
          (case fs_rglob env search_dir ''*.docx'' of
             Inl e \<Rightarrow> Inl e
           | Inr files \<Rightarrow>
               (case first_block_file cfg env block_name files of
                  Inl e \<Rightarrow> Inl e
                | Inr (Some r) \<Rightarrow> Inr (Some r)
                | Inr None \<Rightarrow> search_block_dirs cfg env block_name ds))
      | Inr False \<Rightarrow> search_block_dirs cfg env block_name ds)"

definition find_content_block_file :: "config \<Rightarrow> env \<Rightarrow> string \<Rightarrow> exn + string option" where
  "find_content_block_file cfg env block_name =
     search_block_dirs cfg env block_name
       [path_join env (path_join env (path_join env (base_path cfg) ''templates'') ''Common'')
          ''Content Blocks'',
        path_join env (path_join env (base_path cfg) ''templates'') ''Content Blocks'',
        path_join env (base_path cfg) ''Content Blocks'']"

definition content_block_mappings :: "(string \<times> string) list" where
  "content_block_mappings =
     [(''dc-letterheader'', ''Common/Content Blocks/LetterHeader.docx''),
      (''dc-letteraddress'', ''Common/Content Blocks/DC LetterAddress.docx''),
      (''dc-lettersignoff'', ''Common/Content Blocks/DC LetterSignoff.docx''),
      (''dc-footer'', ''Common/Content Blocks/DC Footer.docx''),
      (''letterheader'', ''Common/Content Blocks/LetterHeader.docx''),
      (''letterfooter'', ''Common/Content Blocks/LetterFooter.docx''),
      (''letteraddress'', ''Common/Content Blocks/LetterAddress.docx''),
      (''lettersignoff'', ''Common/Content Blocks/LetterSignoff.docx'')]"

subsection \<open>\<open>_generate_cache_key\<close> and \<open>_embed_content\<close>\<close>

definition generate_cache_key :: "env \<Rightarrow> string \<Rightarrow> string \<Rightarrow> string" where
  "generate_cache_key env ref_type ref_path = md5_hexdigest env (ref_type @ '':'' @ ref_path)"

text \<open>The wrapper of the f-string, with its line breaks and indentation.\<close>

definition wrapped_content :: "string \<Rightarrow> string \<Rightarrow> string \<Rightarrow> string" where
  "wrapped_content ref_type ref_path content =
     [CHR 0x0A] @ ''        <div class='' @ [CHR 0x22] @ ''resolved-content'' @ [CHR 0x22]
     @ '' data-source='' @ [CHR 0x22] @ ref_path @ [CHR 0x22]
     @ '' data-type='' @ [CHR 0x22] @ ref_type @ [CHR 0x22] @ ''>'' @ [CHR 0x0A]
     @ ''            '' @ content @ [CHR 0x0A]
     @ ''        </div>'' @ [CHR 0x0A] @ ''        ''"

definition embed_content :: "env \<Rightarrow> string \<Rightarrow> string \<Rightarrow> string \<Rightarrow> string \<Rightarrow> exn + string" where
  "embed_content env html ref_type ref_path content =
     (let wrapped = wrapped_content ref_type ref_path content
      in if ref_type = ''double_curly''
           then Inr (str_replace (''{{'' @ ref_path @ ''}}'') wrapped html)
         else if ref_type = ''content_block''
           then Inr (str_replace (''{{'' @ ref_path @ ''}}'') wrapped html)
         else if ref_type = ''include_directive''
           then Inr (str_replace (''@include('' @ ref_path @ '')'') wrapped html)
         else if ref_type = ''sharedo_content''
           then Inr (str_replace (''[content:'' @ ref_path @ '']'') wrapped html)
         else if ref_type = ''data_attribute''
           then replace_data_content_control env html ref_path wrapped
         else Inr html)"

subsection \<open>\<open>resolve_document\<close> and the loaders it calls\<close>

text \<open>
  The six functions call each other; each takes the resolver's state and returns it with
  its result. \<open>resolve_references\<close> is the \<open>for\<close> loop of \<open>resolve_document\<close> over
  the extracted references, with the running HTML and the per-call statistics. An
  exception leaves a function as \<open>Inl\<close>; \<open>_load_and_convert_document\<close> catches every
  exception of its body and so has none: when \<open>_resolve_path\<close> or
  \<open>full_path.exists()\<close> raises, it returns \<open>None\<close> as it does for a file that
  does not exist. \<open>resolution_stack.pop()\<close> stands in the
  \<open>finally\<close> block, so it runs on every way out of the body.
\<close>

function
  resolve_document ::
    "config \<Rightarrow> env \<Rightarrow> resolver \<Rightarrow> string \<Rightarrow> string \<Rightarrow> int
      \<Rightarrow> (exn + string \<times> call_stats) \<times> resolver"
and resolve_references ::
    "config \<Rightarrow> env \<Rightarrow> resolver \<Rightarrow> string \<Rightarrow> (string \<times> string) list \<Rightarrow> string
      \<Rightarrow> resolution_stats \<Rightarrow> int \<Rightarrow> (exn + string \<times> resolution_stats) \<times> resolver"
and resolve_single_reference ::
    "config \<Rightarrow> env \<Rightarrow> resolver \<Rightarrow> string \<Rightarrow> string \<Rightarrow> int
      \<Rightarrow> (exn + string option) \<times> resolver"
and load_and_convert_document ::
    "config \<Rightarrow> env \<Rightarrow> resolver \<Rightarrow> string \<Rightarrow> int \<Rightarrow> string option \<times> resolver"
and load_content_block ::
    "config \<Rightarrow> env \<Rightarrow> resolver \<Rightarrow> string \<Rightarrow> int \<Rightarrow> (exn + string option) \<times> resolver"
and load_referenced_content ::
    "config \<Rightarrow> env \<Rightarrow> resolver \<Rightarrow> string \<Rightarrow> int \<Rightarrow> (exn + string option) \<times> resolver"
where
  "resolve_document cfg env s doc_path html_content depth =
     (if depth > max_depth cfg
        then (Inr (html_content, Error_flag ''max_depth_exceeded''), s)
      else if doc_path \<in> set (resolution_stack s)
        then (Inr (html_content, Error_flag ''circular_reference''),
              s\<lparr>circular_references := circular_references s + 1\<rparr>)
      else
        (let s1 = s\<lparr>resolution_stack := resolution_stack s @ [doc_path],
                     total_resolutions := total_resolutions s + 1\<rparr>;
             references = extract_references env html_content
         in case (if references = [] then (Inr (html_content, No_references), s1)
                  else (case resolve_references cfg env s1 doc_path references html_content
                               \<lparr>references_found = int (length references), resolved = 0,
                                failed = 0, from_cache = 0\<rparr> depth of
                          (Inl e, s2) \<Rightarrow> (Inl e, s2)
                        | (Inr (resolved_html, resolution_stats), s2) \<Rightarrow>
                            (Inr (resolved_html, Resolution resolution_stats), s2)))
            of (r, s3) \<Rightarrow>
              if resolution_stack s3 = [] then (Inl ''IndexError: pop from empty list'', s3)
              else (r, s3\<lparr>resolution_stack := butlast (resolution_stack s3)\<rparr>)))"
| "resolve_references cfg env s doc_path [] resolved_html resolution_stats depth =
     (Inr (resolved_html, resolution_stats), s)"
| "resolve_references cfg env s doc_path ((ref_type, ref_path) # references) resolved_html
       resolution_stats depth =
     (case resolve_single_reference cfg env s ref_type ref_path (depth + 1) of
        (Inl e, s1) \<Rightarrow> (Inl e, s1)
      | (Inr resolved_content, s1) \<Rightarrow>
          if truthy resolved_content
          then (case embed_content env resolved_html ref_type ref_path
                       (case resolved_content of Some c \<Rightarrow> c | None \<Rightarrow> []) of
                  Inl e \<Rightarrow> (Inl e, s1)
                | Inr html \<Rightarrow>
                    resolve_references cfg env
                      (s1\<lparr>dependency_graph := (dependency_graph s1)(doc_path \<mapsto>
                          insert ref_path (case dependency_graph s1 doc_path of
                                             None \<Rightarrow> {} | Some deps \<Rightarrow> deps))\<rparr>)
                      doc_path references html
                      (resolution_stats\<lparr>resolved := resolved resolution_stats + 1\<rparr>) depth)
          else resolve_references cfg env
                 (s1\<lparr>failed_resolutions := failed_resolutions s1 + 1\<rparr>)
                 doc_path references resolved_html
                 (resolution_stats\<lparr>failed := failed resolution_stats + 1\<rparr>) depth)"
| "resolve_single_reference cfg env s ref_type ref_path depth =
     (let cache_key = generate_cache_key env ref_type ref_path
      in case cache s cache_key of
           Some cached \<Rightarrow> (Inr (Some cached), s\<lparr>cache_hits := cache_hits s + 1\<rparr>)
         | None \<Rightarrow>
             (case (if ref_type \<in> set [''double_curly'', ''include_directive'', ''sharedo_content'']
                      then (case load_and_convert_document cfg env
                                   (s\<lparr>cache_misses := cache_misses s + 1\<rparr>) ref_path depth of
                              (c, s1) \<Rightarrow> (Inr c, s1))
                    else if ref_type = ''content_block''
                      then load_content_block cfg env
                             (s\<lparr>cache_misses := cache_misses s + 1\<rparr>) ref_path depth
                    else if ref_type = ''data_attribute''
                      then load_referenced_content cfg env
                             (s\<lparr>cache_misses := cache_misses s + 1\<rparr>) ref_path depth
                    else (Inr None, s\<lparr>cache_misses := cache_misses s + 1\<rparr>))
              of (Inl e, s2) \<Rightarrow> (Inl e, s2)
               | (Inr resolved_content, s2) \<Rightarrow>
                   (Inr resolved_content,
                    (case resolved_content of
                       None \<Rightarrow> s2
                     | Some c \<Rightarrow> if c \<noteq> [] then s2\<lparr>cache := (cache s2)(cache_key \<mapsto> c)\<rparr>
                                else s2))))"
| "load_and_convert_document cfg env s ref_path depth =
     (case resolve_path cfg env ref_path of
        Inl e \<Rightarrow> (None, s)
      | Inr None \<Rightarrow> (None, s)
      | Inr (Some full_path) \<Rightarrow>
          if fs_exists env full_path \<noteq> Inr True then (None, s)
          else if lower (path_suffix env full_path) = ''.docx''
            then (case convert_docx env full_path of
                    Inl e \<Rightarrow> (None, s)
                  | Inr (success, html) \<Rightarrow>
                      if success
                      then (case body_fragment env html of
                              Inl e \<Rightarrow> (None, s)
                            | Inr fragment \<Rightarrow>
                                if depth < max_depth cfg
                                then (case resolve_document cfg env s full_path fragment depth of
                                        (Inl e, s1) \<Rightarrow> (None, s1)
                                      | (Inr (fragment', stats), s1) \<Rightarrow> (Some fragment', s1))
                                else (Some fragment, s))
                      else (None, s))
          else if lower (path_suffix env full_path) \<in> set [''.html'', ''.htm'']
            then (case fs_read_text env full_path of
                    Inl e \<Rightarrow> (None, s)
                  | Inr text \<Rightarrow> (Some text, s))
          else (None, s))"
| "load_content_block cfg env s block_name depth =
     (case map_of content_block_mappings (strip (lower block_name)) of
        Some relative_path \<Rightarrow>
          (case load_and_convert_document cfg env s relative_path depth of
             (c, s1) \<Rightarrow> (Inr c, s1))
      | None \<Rightarrow>
          (case find_content_block_file cfg env block_name of
             Inl e \<Rightarrow> (Inl e, s)
           | Inr search_path \<Rightarrow>
               if truthy search_path
               then (case load_and_convert_document cfg env s
                            (case search_path of Some p \<Rightarrow> p | None \<Rightarrow> []) depth of
                       (c, s1) \<Rightarrow> (Inr c, s1))
               else (Inr None, s)))"
| "load_referenced_content cfg env s ref_id depth =
     (case load_and_convert_document cfg env s ref_id depth of
        (content, s1) \<Rightarrow>
          if truthy content then (Inr content, s1)
          else (case load_content_block cfg env s1 ref_id depth of
                  (Inl e, s2) \<Rightarrow> (Inl e, s2)
                | (Inr content', s2) \<Rightarrow>
                    if truthy content' then (Inr content', s2) else (Inr None, s2)))"
  by pat_completeness auto
termination
  by (relation "measures
        [\<lambda>x. case x of
            Inl (Inl (cfg, env, s, doc_path, html, depth)) \<Rightarrow>
              2 * nat (max_depth cfg - depth + 1)
          | Inl (Inr (Inl (cfg, env, s, doc_path, refs, html, st, depth))) \<Rightarrow>
              2 * nat (max_depth cfg - depth) + 1
          | Inl (Inr (Inr (cfg, env, s, ref_type, ref_path, depth))) \<Rightarrow>
              2 * nat (max_depth cfg - depth + 1) + 1
          | Inr (Inl (cfg, env, s, ref_path, depth)) \<Rightarrow>
              2 * nat (max_depth cfg - depth + 1) + 1
          | Inr (Inr (Inl (cfg, env, s, block_name, depth))) \<Rightarrow>
              2 * nat (max_depth cfg - depth + 1) + 1
          | Inr (Inr (Inr (cfg, env, s, ref_id, depth))) \<Rightarrow>
              2 * nat (max_depth cfg - depth + 1) + 1,
         \<lambda>x. case x of
            Inl (Inl (cfg, env, s, doc_path, html, depth)) \<Rightarrow> 0
          | Inl (Inr (Inl (cfg, env, s, doc_path, refs, html, st, depth))) \<Rightarrow> 4 + length refs
          | Inl (Inr (Inr (cfg, env, s, ref_type, ref_path, depth))) \<Rightarrow> 3
          | Inr (Inl (cfg, env, s, ref_path, depth)) \<Rightarrow> 0
          | Inr (Inr (Inl (cfg, env, s, block_name, depth))) \<Rightarrow> 1
          | Inr (Inr (Inr (cfg, env, s, ref_id, depth))) \<Rightarrow> 2]")
     auto

declare resolve_document.simps [simp del] resolve_references.simps [simp del]
  resolve_single_reference.simps [simp del] load_and_convert_document.simps [simp del]
  load_content_block.simps [simp del] load_referenced_content.simps [simp del]

subsection \<open>\<open>clear_cache\<close>\<close>

definition clear_cache :: "resolver \<Rightarrow> resolver" where
  "clear_cache s = s\<lparr>cache := Map.empty, cache_hits := 0, cache_misses := 0\<rparr>"

subsection \<open>What every call leaves of the state\<close>

text \<open>
  The relation between the state before a call and the state after it that all six
  functions keep: the resolution stack is the same, the two cache counters have not gone
  down, every cache entry from before the call is still there with its value, and every
  other cache entry is a non-empty string.
\<close>

definition frame :: "resolver \<Rightarrow> resolver \<Rightarrow> bool" where
  "frame s s' \<longleftrightarrow>
     resolution_stack s' = resolution_stack s
     \<and> cache_hits s \<le> cache_hits s'
     \<and> cache_misses s \<le> cache_misses s'
     \<and> (\<forall>k v. cache s k = Some v \<longrightarrow> cache s' k = Some v)
     \<and> (\<forall>k v. cache s' k = Some v \<longrightarrow> cache s k = Some v \<or> v \<noteq> [])"

subsection \<open>A small run: an HTML fragment and documents that include each other\<close>

text \<open>
  The surroundings of the examples below. The base directory \<open>/srv\<close> holds the HTML
  fragment \<open>a.html\<close> and the documents \<open>A.docx\<close>, \<open>B.docx\<close> and \<open>X.docx\<close>;
  the converter turns \<open>A.docx\<close> into a fragment that includes \<open>B.docx\<close>,
  \<open>B.docx\<close> into one that includes \<open>A.docx\<close>, and \<open>X.docx\<close> into one that
  includes \<open>X.docx\<close> itself. Listing the directory \<open>/srv/Content Blocks\<close> raises. The
  hash is the identity, which has no collisions.
\<close>

definition demo_cfg :: config where
  "demo_cfg = \<lparr>base_path = ''/srv'', max_depth = 5\<rparr>"

definition demo_suffix :: "string \<Rightarrow> string" where
  "demo_suffix p =
     (if CHR ''.'' \<in> set p then CHR ''.'' # rev (takeWhile (\<lambda>c. c \<noteq> CHR ''.'') (rev p)) else [])"

definition demo_env :: env where
  "demo_env = \<lparr>
     md5_hexdigest = (\<lambda>key. key),
     path_str = (\<lambda>p. p),
     path_is_absolute = (\<lambda>p. starts_with ''/'' p),
     path_join = (\<lambda>a b. if starts_with ''/'' b then b else a @ ''/'' @ b),
     path_with_suffix = (\<lambda>p suffix. Inr (p @ suffix)),
     path_suffix = demo_suffix,
     path_stem = (\<lambda>p. p),
     path_relative_to = (\<lambda>p base. Inr p),
     fs_exists = (\<lambda>p. Inr (p \<in> set [''/srv/a.html'', ''/srv/A.docx'', ''/srv/B.docx'',
                                       ''/srv/X.docx'', ''/srv/Content Blocks''])),
     fs_rglob = (\<lambda>dir glob. Inl ''PermissionError''),
     fs_read_text = (\<lambda>p. if p = ''/srv/a.html'' then Inr ''<p>hi</p>''
                         else Inl ''FileNotFoundError''),
     convert_docx = (\<lambda>p. if p = ''/srv/A.docx'' then Inr (True, ''@include(B.docx)'')
                         else if p = ''/srv/B.docx'' then Inr (True, ''@include(A.docx)'')
                         else if p = ''/srv/X.docx'' then Inr (True, ''@include(X.docx)'')
                         else Inl ''FileNotFoundError''),
     body_fragment = (\<lambda>html. Inr html),
     data_content_controls = (\<lambda>html. Inr []),
     replace_data_content_control = (\<lambda>html ref_path wrapped. Inr html)\<rparr>"

section \<open>Structure parsing (app/structure\_parser.py)\<close>

subsection \<open>More of the Python standard library\<close>

text \<open>\<open>str.split(sep)\<close> for a separator of one character, and \<open>sep.join\<close>.\<close>

fun split_on :: "char \<Rightarrow> string \<Rightarrow> string list" where
  "split_on sep [] = [[]]"
| "split_on sep (c # cs) =
     (if c = sep then [] # split_on sep cs
      else (case split_on sep cs of
              [] \<Rightarrow> [[c]]
            | w # ws \<Rightarrow> (c # w) # ws))"

fun join_with :: "string \<Rightarrow> string list \<Rightarrow> string" where
  "join_with sep [] = []"
| "join_with sep [x] = x"
| "join_with sep (x # y # ys) = x @ sep @ join_with sep (y # ys)"

text \<open>\<open>str(n)\<close> for an integer: decimal digits, with a minus sign below zero.\<close>

fun digits :: "nat \<Rightarrow> string" where
  "digits n =
     (if n < 10 then [''0123456789'' ! n]
      else digits (n div 10) @ [''0123456789'' ! (n mod 10)])"

definition str_of_int :: "int \<Rightarrow> string" where
  "str_of_int i = (if i < 0 then CHR ''-'' # digits (nat (- i)) else digits (nat i))"

text \<open>
  \<open>int(s)\<close> for a string: white space around the number, an optional sign, decimal
  digits with single underscores between them; anything else raises \<open>ValueError\<close>,
  which is \<open>None\<close> here. The white space \<open>int\<close> skips is that of \<open>str.isspace\<close>
  without the four separators 0x1C to 0x1F: \<open>int('\x1f2')\<close> raises.
\<close>

definition int_space :: "char \<Rightarrow> bool" where
  "int_space c = (c \<in> set [CHR 0x09, CHR 0x0A, CHR 0x0B, CHR 0x0C, CHR 0x0D, CHR 0x20,
     CHR 0x85, CHR 0xA0])"

definition digit_value :: "char \<Rightarrow> nat option" where
  "digit_value c = map_of (zip ''0123456789'' [0, 1, 2, 3, 4, 5, 6, 7, 8, 9]) c"

fun digits_value :: "nat \<Rightarrow> bool \<Rightarrow> string \<Rightarrow> nat option" where
  "digits_value acc after_digit [] = (if after_digit then Some acc else None)"
| "digits_value acc after_digit (c # cs) =
     (if c = CHR ''_'' then (if after_digit \<and> cs \<noteq> [] then digits_value acc False cs else None)
      else (case digit_value c of
              None \<Rightarrow> None
            | Some d \<Rightarrow> digits_value (10 * acc + d) True cs))"

definition int_of_str :: "string \<Rightarrow> int option" where
  "int_of_str s =
     (case rev (dropWhile int_space (rev (dropWhile int_space s))) of
        [] \<Rightarrow> None
      | c # cs \<Rightarrow>
          if c = CHR ''-'' then map_option (\<lambda>n. - int n) (digits_value 0 False cs)
          else if c = CHR ''+'' then map_option int (digits_value 0 False cs)
          else map_option int (digits_value 0 False (c # cs)))"

subsection \<open>The regular expressions of \<open>CONDITIONAL_PATTERNS\<close>\<close>

text \<open>
  The constructs the nine patterns use, matched as Python's \<open>re\<close> matches them, by
  backtracking: one character of a class; a greedy repetition of a class (\<open>*\<close> and
  \<open>+\<close>, the longest run tried first); a lazy repetition (\<open>+?\<close>, the shortest run tried
  first); an optional character (\<open>?\<close>, taken first); an alternation of literals, tried in
  order; and the two ends of the first group. All nine are compiled with
  \<open>re.IGNORECASE\<close>, so a literal letter matches both cases.
\<close>

datatype rx =
  Chr "char \<Rightarrow> bool"
  | Greedy nat "char \<Rightarrow> bool"
  | Lazy nat "char \<Rightarrow> bool"
  | Opt "char \<Rightarrow> bool"
  | Alts "string list"
  | Group_open
  | Group_close

text \<open>
  \<open>rx_match items s start grp\<close>: the items matched at the head of \<open>s\<close>, giving the
  text of the group and the rest of the input; \<open>start\<close> is the input where the group was
  opened.
\<close>

fun rx_weight :: "rx \<Rightarrow> nat" where
  "rx_weight (Alts ws) = Suc (length ws)"
| "rx_weight item = 1"

function (sequential) rx_match ::
  "rx list \<Rightarrow> string \<Rightarrow> string \<Rightarrow> string option \<Rightarrow> (string option \<times> string) option" where
  "rx_match [] s start grp = Some (grp, s)"
| "rx_match (Chr P # r) [] start grp = None"
| "rx_match (Chr P # r) (c # cs) start grp =
     (if P c then rx_match r cs start grp else None)"
| "rx_match (Group_open # r) s start grp = rx_match r s s grp"
| "rx_match (Group_close # r) s start grp =
     rx_match r s start (Some (take (length start - length s) start))"
| "rx_match (Opt P # r) [] start grp = rx_match r [] start grp"
| "rx_match (Opt P # r) (c # cs) start grp =
     (if P c
      then (case rx_match r cs start grp of
              Some m \<Rightarrow> Some m
            | None \<Rightarrow> rx_match r (c # cs) start grp)
      else rx_match r (c # cs) start grp)"
| "rx_match (Alts [] # r) s start grp = None"
| "rx_match (Alts (w # ws) # r) s start grp =
     (case literal w s of
        None \<Rightarrow> rx_match (Alts ws # r) s start grp
      | Some s' \<Rightarrow>
          (case rx_match r s' start grp of
             Some m \<Rightarrow> Some m
           | None \<Rightarrow> rx_match (Alts ws # r) s start grp))"
| "rx_match (Greedy n P # r) [] start grp =
     (if n = 0 then rx_match r [] start grp else None)"
| "rx_match (Greedy n P # r) (c # cs) start grp =
     (if P c
      then (case rx_match (Greedy (n - 1) P # r) cs start grp of
              Some m \<Rightarrow> Some m
            | None \<Rightarrow> if n = 0 then rx_match r (c # cs) start grp else None)
      else if n = 0 then rx_match r (c # cs) start grp else None)"
| "rx_match (Lazy n P # r) [] start grp =
     (if n = 0 then rx_match r [] start grp else None)"
| "rx_match (Lazy n P # r) (c # cs) start grp =
     (if n = 0
      then (case rx_match r (c # cs) start grp of
              Some m \<Rightarrow> Some m
            | None \<Rightarrow> if P c then rx_match (Lazy 0 P # r) cs start grp else None)
      else if P c then rx_match (Lazy (n - 1) P # r) cs start grp else None)"
  by pat_completeness auto
termination
  by (relation "measures [\<lambda>(items, s, start, grp). sum_list (map rx_weight items),
                          \<lambda>(items, s, start, grp). length s]") auto

text \<open>The alternatives of a pattern at one position, in order.\<close>

fun rx_match_any :: "rx list list \<Rightarrow> string \<Rightarrow> string option option" where
  "rx_match_any [] s = None"
| "rx_match_any (alt # alts) s =
     (case rx_match alt s s None of
        Some (grp, rest) \<Rightarrow> Some grp
      | None \<Rightarrow> rx_match_any alts s)"

text \<open>\<open>pattern.search(s)\<close>: the first position with a match; the result is \<open>group(1)\<close>
  of the match (\<open>None\<close> inside when the group took no part).\<close>

fun rx_search :: "rx list list \<Rightarrow> string \<Rightarrow> string option option" where
  "rx_search alts [] = rx_match_any alts []"
| "rx_search alts (c # cs) =
     (case rx_match_any alts (c # cs) of
        Some grp \<Rightarrow> Some grp
      | None \<Rightarrow> rx_search alts cs)"

definition lit :: "string \<Rightarrow> rx list" where
  "lit w = map (\<lambda>p. Chr (\<lambda>c. lower_char c = lower_char p)) w"

definition ws0 :: rx where
  "ws0 = Greedy 0 isspace"

definition ws1 :: rx where
  "ws1 = Greedy 1 isspace"

definition dot :: "char \<Rightarrow> bool" where
  "dot c = (c \<noteq> CHR 0x0A)"

definition newline_opt :: rx where
  "newline_opt = Opt (\<lambda>c. c = CHR 0x0A)"

text \<open>
  \<^item> \<open>if_simple\<close>: \<^verbatim>\<open>\{\%\s*if\s+([^%]+)\s*\%\}\<close>
  \<^item> \<open>if_complex\<close>: \<^verbatim>\<open>if\s+(.+?)\s+(?:then|:)\<close>
  \<^item> \<open>if_multiline\<close>: \<^verbatim>\<open>(?:if|IF)\s*\n?\s*(.+?)\s*\n?\s*(?:then|THEN|:)\<close>
  \<^item> \<open>endif\<close>: \<^verbatim>\<open>\{\%\s*endif\s*\%\}|endif|ENDIF\<close>
  \<^item> \<open>else\<close>: \<^verbatim>\<open>\{\%\s*else\s*\%\}|else|ELSE\<close>
  \<^item> \<open>elif\<close>: \<^verbatim>\<open>\{\%\s*elif\s+([^%]+)\s*\%\}|elif\s+(.+)\<close>
  \<^item> \<open>switch\<close>: \<^verbatim>\<open>switch\s*\(([^)]+)\)\<close>
  \<^item> \<open>case\<close>: \<^verbatim>\<open>case\s+([^:]+):\<close>
  \<^item> \<open>for_loop\<close>: \<^verbatim>\<open>\{\%\s*for\s+(.+?)\s+in\s+(.+?)\s*\%\}\<close>
  Only the first group of the three \<open>if\<close> patterns is read by the code.
\<close>

definition if_simple :: "rx list list" where
  "if_simple = [lit ''{%'' @ [ws0] @ lit ''if'' @ [ws1, Group_open,
     Greedy 1 (\<lambda>c. c \<noteq> CHR ''%''), Group_close, ws0] @ lit ''%}'']"

definition if_complex :: "rx list list" where
  "if_complex = [lit ''if'' @ [ws1, Group_open, Lazy 1 dot, Group_close, ws1,
     Alts [''then'', '':'']]]"

definition if_multiline :: "rx list list" where
  "if_multiline = [[Alts [''if'', ''IF''], ws0, newline_opt, ws0, Group_open, Lazy 1 dot,
     Group_close, ws0, newline_opt, ws0, Alts [''then'', ''THEN'', '':'']]]"

definition endif_pattern :: "rx list list" where
  "endif_pattern = [lit ''{%'' @ [ws0] @ lit ''endif'' @ [ws0] @ lit ''%}'',
     lit ''endif'', lit ''ENDIF'']"

definition else_pattern :: "rx list list" where
  "else_pattern = [lit ''{%'' @ [ws0] @ lit ''else'' @ [ws0] @ lit ''%}'',
     lit ''else'', lit ''ELSE'']"

definition elif_pattern :: "rx list list" where
  "elif_pattern = [lit ''{%'' @ [ws0] @ lit ''elif'' @ [ws1, Group_open,
       Greedy 1 (\<lambda>c. c \<noteq> CHR ''%''), Group_close, ws0] @ lit ''%}'',
     lit ''elif'' @ [ws1, Greedy 1 dot]]"

definition switch_pattern :: "rx list list" where
  "switch_pattern = [lit ''switch'' @ [ws0] @ lit ''('' @ [Group_open,
     Greedy 1 (\<lambda>c. c \<noteq> CHR '')''), Group_close] @ lit '')'']"

definition case_pattern :: "rx list list" where
  "case_pattern = [lit ''case'' @ [ws1, Group_open, Greedy 1 (\<lambda>c. c \<noteq> CHR '':''),
     Group_close] @ lit '':'']"

definition for_loop :: "rx list list" where
  "for_loop = [lit ''{%'' @ [ws0] @ lit ''for'' @ [ws1, Group_open, Lazy 1 dot, Group_close,
     ws1] @ lit ''in'' @ [ws1, Lazy 1 dot, ws0] @ lit ''%}'']"

definition CONDITIONAL_PATTERNS :: "rx list list list" where
  "CONDITIONAL_PATTERNS = [if_simple, if_complex, if_multiline, endif_pattern, else_pattern,
     elif_pattern, switch_pattern, case_pattern, for_loop]"

subsection \<open>The parsed document\<close>

text \<open>
  What BeautifulSoup hands to the parser: a tree of elements and strings. An attribute
  value is a string, or a list of strings for the attributes BeautifulSoup splits
  (\<open>class\<close> among them); the structure tree also stores integers. The soup itself is
  the element named \<open>[document]\<close> at the root. The code holds references to elements
  and changes them in place; here an element is referred to by its path from the root
  (the child indices), and a change returns the changed document. No change the parser
  makes moves an element to another path: it sets attributes, wraps a string in a new
  element in the string's place, and appends one child to \<open>head\<close>.
\<close>

datatype py_value = Str string | Strs "string list" | Num int

datatype dom = Element string "(string \<times> py_value) list" "dom list" | Text string

type_synonym path = "nat list"

fun node_at :: "dom \<Rightarrow> path \<Rightarrow> dom option" where
  "node_at d [] = Some d"
| "node_at (Text s) (i # p) = None"
| "node_at (Element t a ks) (i # p) = (if i < length ks then node_at (ks ! i) p else None)"

fun change_at :: "(dom \<Rightarrow> dom) \<Rightarrow> path \<Rightarrow> dom \<Rightarrow> dom" where
  "change_at f [] d = f d"
| "change_at f (i # p) (Text s) = Text s"
| "change_at f (i # p) (Element t a ks) =
     (if i < length ks then Element t a (ks[i := change_at f p (ks ! i)]) else Element t a ks)"

text \<open>The descendants of a node in document order, as paths from the node.\<close>

fun descendants :: "dom \<Rightarrow> path list"
  and descendants_from :: "nat \<Rightarrow> dom list \<Rightarrow> path list" where
  "descendants (Text s) = []"
| "descendants (Element t a ks) = descendants_from 0 ks"
| "descendants_from i [] = []"
| "descendants_from i (k # ks) =
     ([i] # map ((#) i) (descendants k)) @ descendants_from (Suc i) ks"

definition is_tag :: "string list \<Rightarrow> dom option \<Rightarrow> bool" where
  "is_tag names d = (case d of Some (Element t a ks) \<Rightarrow> t \<in> set names | _ \<Rightarrow> False)"

definition is_string :: "dom option \<Rightarrow> bool" where
  "is_string d = (case d of Some (Text s) \<Rightarrow> True | _ \<Rightarrow> False)"

definition attrs_at :: "dom \<Rightarrow> path \<Rightarrow> (string \<times> py_value) list" where
  "attrs_at doc p = (case node_at doc p of Some (Element t a ks) \<Rightarrow> a | _ \<Rightarrow> [])"

text \<open>\<open>tag.get(name)\<close>.\<close>

definition get_attr :: "dom \<Rightarrow> path \<Rightarrow> string \<Rightarrow> py_value option" where
  "get_attr doc p name = map_of (attrs_at doc p) name"

text \<open>Truth of what \<open>tag.get\<close> returns: not \<open>None\<close>, not empty, not zero.\<close>

definition truthy_value :: "py_value option \<Rightarrow> bool" where
  "truthy_value v =
     (case v of
        None \<Rightarrow> False
      | Some (Str s) \<Rightarrow> s \<noteq> []
      | Some (Strs l) \<Rightarrow> l \<noteq> []
      | Some (Num i) \<Rightarrow> i \<noteq> 0)"

definition subtree_paths :: "dom \<Rightarrow> path \<Rightarrow> path list" where
  "subtree_paths doc p =
     (case node_at doc p of None \<Rightarrow> [] | Some d \<Rightarrow> map ((@) p) (descendants d))"

text \<open>\<open>tag.find_all(names)\<close>, \<open>tag.find_all(names, recursive=False)\<close>,
  \<open>soup.find_all(string=True)\<close>, \<open>find_all(attrs={name: True})\<close>,
  \<open>find_all(names, attrs={name: value})\<close> and \<open>tag.find(names)\<close>.\<close>

definition find_all :: "dom \<Rightarrow> path \<Rightarrow> string list \<Rightarrow> path list" where
  "find_all doc p names = filter (\<lambda>q. is_tag names (node_at doc q)) (subtree_paths doc p)"

definition find_all_children :: "dom \<Rightarrow> path \<Rightarrow> string list \<Rightarrow> path list" where
  "find_all_children doc p names =
     (case node_at doc p of
        Some (Element t a ks) \<Rightarrow>
          filter (\<lambda>q. is_tag names (node_at doc q)) (map (\<lambda>i. p @ [i]) [0..<length ks])
      | _ \<Rightarrow> [])"

definition find_all_strings :: "dom \<Rightarrow> path list" where
  "find_all_strings doc = filter (\<lambda>q. is_string (node_at doc q)) (subtree_paths doc [])"

definition find_all_with_attr :: "dom \<Rightarrow> string \<Rightarrow> path list" where
  "find_all_with_attr doc name =
     filter (\<lambda>q. get_attr doc q name \<noteq> None) (subtree_paths doc [])"

definition attr_equals :: "py_value option \<Rightarrow> string \<Rightarrow> bool" where
  "attr_equals v s =
     (case v of
        Some (Str x) \<Rightarrow> x = s
      | Some (Strs l) \<Rightarrow> s \<in> set l \<or> join_with '' '' l = s
      | _ \<Rightarrow> False)"

definition find_all_attr_value :: "dom \<Rightarrow> string list \<Rightarrow> string \<Rightarrow> string \<Rightarrow> path list" where
  "find_all_attr_value doc names name s =
     filter (\<lambda>q. attr_equals (get_attr doc q name) s) (find_all doc [] names)"

definition find_first :: "dom \<Rightarrow> path \<Rightarrow> string list \<Rightarrow> path option" where
  "find_first doc p names = (case find_all doc p names of [] \<Rightarrow> None | q # qs \<Rightarrow> Some q)"

text \<open>Assignment to a key of a dictionary, which keeps the order of insertion.\<close>

fun dict_set :: "'k \<Rightarrow> 'v \<Rightarrow> ('k \<times> 'v) list \<Rightarrow> ('k \<times> 'v) list" where
  "dict_set k v [] = [(k, v)]"
| "dict_set k v ((k', v') # kvs) = (if k' = k then (k, v) # kvs else (k', v') # dict_set k v kvs)"

text \<open>\<open>tag[name] = value\<close>, \<open>string.wrap(new_tag)\<close> and \<open>tag.append(child)\<close>.\<close>

definition set_attr :: "path \<Rightarrow> string \<Rightarrow> string \<Rightarrow> dom \<Rightarrow> dom" where
  "set_attr p name v doc =
     change_at (\<lambda>d. case d of Element t a ks \<Rightarrow> Element t (dict_set name (Str v) a) ks
                             | Text s \<Rightarrow> Text s) p doc"

definition set_attr_value :: "path \<Rightarrow> string \<Rightarrow> py_value \<Rightarrow> dom \<Rightarrow> dom" where
  "set_attr_value p name v doc =
     change_at (\<lambda>d. case d of Element t a ks \<Rightarrow> Element t (dict_set name v a) ks
                             | Text s \<Rightarrow> Text s) p doc"

definition wrap :: "path \<Rightarrow> string \<Rightarrow> (string \<times> py_value) list \<Rightarrow> dom \<Rightarrow> dom" where
  "wrap p name a doc = change_at (\<lambda>d. Element name a [d]) p doc"

definition append_child :: "path \<Rightarrow> dom \<Rightarrow> dom \<Rightarrow> dom" where
  "append_child p child doc =
     change_at (\<lambda>d. case d of Element t a ks \<Rightarrow> Element t a (ks @ [child])
                             | Text s \<Rightarrow> Text s) p doc"

subsection \<open>The structure tree and the parser's state\<close>

datatype structure_type = TABLE | CONDITIONAL | SECTION | LIST | MIXED

datatype conditional_type = IF_THEN | IF_THEN_ELSE | SWITCH_CASE | LOOP | NESTED

text \<open>The dictionary \<open>conditional_info\<close>. No code sets its key \<open>closed\<close>; it is read
  with \<open>get('closed', True)\<close>.\<close>

record conditional_info =
  cond_type :: conditional_type
  condition :: string
  branches :: "string list"
  closed :: "bool option"

text \<open>\<open>StructureNode\<close>; its fields \<open>type\<close>, \<open>depth\<close>, \<open>content\<close>,
  \<open>children\<close>, \<open>attributes\<close>, \<open>formatting\<close> and \<open>conditional_info\<close> carry the
  prefix \<open>node_\<close> here. The content is a string or a reference to an element.\<close>

datatype content_value = Content_str string | Content_tag path

datatype structure_node =
  Structure_node (node_type: structure_type) (node_depth: int) (node_content: content_value)
    (node_children: "structure_node list") (node_attributes: "(string \<times> py_value) list")
    (node_formatting: "(string \<times> py_value) list")
    (node_conditional_info: "conditional_info option")

text \<open>The five counters of \<open>statistics\<close>, and the warnings given to the logger. The
  fields \<open>structure_stack\<close>, \<open>depth_counter\<close> and \<open>formatting_stack\<close> are never read
  or written after \<open>__init__\<close>.\<close>

record parser =
  max_depth_reached :: int
  tables_parsed :: int
  conditionals_parsed :: int
  nested_structures :: int
  complex_structures :: int
  warnings_logged :: "string list"

definition new_parser :: parser where
  "new_parser = \<lparr>max_depth_reached = 0, tables_parsed = 0, conditionals_parsed = 0,
     nested_structures = 0, complex_structures = 0, warnings_logged = []\<rparr>"

definition MAX_NESTING_DEPTH :: int where
  "MAX_NESTING_DEPTH = 10"

subsection \<open>\<open>_extract_formatting\<close> and \<open>_preserve_cell_content\<close>\<close>

text \<open>One declaration of a \<open>style\<close> attribute: \<open>prop, value = style.split(':', 1)\<close>.\<close>

fun add_styles :: "string list \<Rightarrow> (string \<times> py_value) list \<Rightarrow> (string \<times> py_value) list" where
  "add_styles [] fmt = fmt"
| "add_styles (style # styles) fmt =
     (if CHR '':'' \<in> set style
      then add_styles styles
             (dict_set (strip (takeWhile (\<lambda>c. c \<noteq> CHR '':'') style))
                (Str (strip (tl (dropWhile (\<lambda>c. c \<noteq> CHR '':'') style)))) fmt)
      else add_styles styles fmt)"

fun add_format_attrs ::
  "dom \<Rightarrow> path \<Rightarrow> string list \<Rightarrow> (string \<times> py_value) list \<Rightarrow> (string \<times> py_value) list" where
  "add_format_attrs doc p [] fmt = fmt"
| "add_format_attrs doc p (attr # attrs) fmt =
     (if truthy_value (get_attr doc p attr)
      then add_format_attrs doc p attrs
             (dict_set attr (case get_attr doc p attr of Some v \<Rightarrow> v | None \<Rightarrow> Str [])
                fmt)
      else add_format_attrs doc p attrs fmt)"

text \<open>The \<open>style\<close> attribute is a string (BeautifulSoup splits \<open>class\<close>, not
  \<open>style\<close>); \<open>' '.join\<close> of a string joins its characters.\<close>

definition extract_formatting :: "dom \<Rightarrow> path \<Rightarrow> (string \<times> py_value) list" where
  "extract_formatting doc p =
     (let f1 = (case get_attr doc p ''style'' of
                  Some (Str style_str) \<Rightarrow>
                    if style_str \<noteq> []
                    then add_styles
                           (filter (\<lambda>s. s \<noteq> []) (map strip (split_on (CHR '';'') style_str))) []
                    else []
                | _ \<Rightarrow> []);
          f2 = (if truthy_value (get_attr doc p ''class'')
                then dict_set ''classes''
                       (Str (case get_attr doc p ''class'' of
                               Some (Strs l) \<Rightarrow> join_with '' '' l
                             | Some (Str s) \<Rightarrow> join_with '' '' (map (\<lambda>c. [c]) s)
                             | _ \<Rightarrow> [])) f1
                else f1)
      in add_format_attrs doc p
           [''align'', ''valign'', ''width'', ''height'', ''bgcolor'', ''border''] f2)"

definition preserve_cell_content :: "path \<Rightarrow> int \<Rightarrow> dom \<Rightarrow> dom" where
  "preserve_cell_content cell d doc =
     (let has_list = (find_first doc cell [''ul'', ''ol''] \<noteq> None);
          has_table = (find_first doc cell [''table''] \<noteq> None);
          has_multiple_paragraphs = (1 < length (find_all doc cell [''p'']))
      in if has_list \<or> has_table \<or> has_multiple_paragraphs
         then (let doc1 = set_attr cell ''data-complex-content'' ''true'' doc;
                   doc2 = set_attr cell ''data-content-depth'' (str_of_int d) doc1;
                   doc3 = (if has_list
                           then fold (\<lambda>list_elem. set_attr list_elem ''data-preserved-list'' ''true'')
                                  (find_all doc2 cell [''ul'', ''ol'']) doc2
                           else doc2)
               in if has_table then set_attr cell ''data-has-nested-table'' ''true'' doc3
                  else doc3)
         else doc)"

subsection \<open>\<open>_process_nested_tables\<close>\<close>

text \<open>
  \<open>process_nested_tables doc ps soup depth\<close> is the call with the element at the path
  \<open>soup\<close>; the result holds the nodes it appends to \<open>parent.children\<close>, in order.
  \<open>process_tables\<close> is its loop over the tables found, \<open>process_cells\<close> the loop over
  the cells of one table, whose results are the children of the table's node.
\<close>

function
  process_nested_tables ::
    "dom \<Rightarrow> parser \<Rightarrow> path \<Rightarrow> int \<Rightarrow> structure_node list \<times> dom \<times> parser"
and process_tables ::
    "dom \<Rightarrow> parser \<Rightarrow> path list \<Rightarrow> int \<Rightarrow> structure_node list \<times> dom \<times> parser"
and process_cells ::
    "dom \<Rightarrow> parser \<Rightarrow> path list \<Rightarrow> int \<Rightarrow> structure_node list \<times> dom \<times> parser"
where
  "process_nested_tables doc ps soup d =
     (if d \<ge> MAX_NESTING_DEPTH
      then ([], doc, ps\<lparr>warnings_logged := warnings_logged ps
              @ [''Max table nesting depth '' @ str_of_int MAX_NESTING_DEPTH @ '' reached'']\<rparr>)
      else process_tables doc ps (find_all_children doc soup [''table'']) d)"
| "process_tables doc ps [] d = ([], doc, ps)"
| "process_tables doc ps (table # tables) d =
     (let ps1 = ps\<lparr>tables_parsed := tables_parsed ps + 1\<rparr>;
          table_attributes = attrs_at doc table;
          table_formatting = extract_formatting doc table;
          nested_tables = find_all doc table [''table'']
      in case (if nested_tables \<noteq> []
               then process_cells doc (ps1\<lparr>nested_structures := nested_structures ps1 + 1\<rparr>)
                      (find_all doc table [''td'', ''th'']) d
               else ([], doc, ps1))
         of (table_children, doc1, ps2) \<Rightarrow>
           (let doc2 = set_attr table ''data-nesting-level'' (str_of_int (d + 1)) doc1;
                doc3 = set_attr table ''data-structure-type''
                         (if nested_tables \<noteq> [] then ''nested-table'' else ''simple-table'') doc2;
                doc4 = fold (\<lambda>cell. preserve_cell_content cell (d + 1))
                         (find_all doc3 table [''td'', ''th'']) doc3;
                table_node = Structure_node TABLE (d + 1) (Content_tag table) table_children
                               table_attributes table_formatting None
            in case process_tables doc4 ps2 tables d of
                 (nodes, doc5, ps3) \<Rightarrow> (table_node # nodes, doc5, ps3)))"
| "process_cells doc ps [] d = ([], doc, ps)"
| "process_cells doc ps (cell # cells) d =
     (if find_all_children doc cell [''table''] \<noteq> []
      then (case process_nested_tables doc ps cell (d + 1) of
              (nodes, doc1, ps1) \<Rightarrow>
                (case process_cells doc1 ps1 cells d of
                   (nodes', doc2, ps2) \<Rightarrow> (nodes @ nodes', doc2, ps2)))
      else process_cells doc ps cells d)"
  by pat_completeness auto
termination
  by (relation "measures
        [\<lambda>x. case x of
            Inl (doc, ps, soup, d) \<Rightarrow> 3 * nat (MAX_NESTING_DEPTH - d)
          | Inr (Inl (doc, ps, tables, d)) \<Rightarrow> 3 * nat (MAX_NESTING_DEPTH - 1 - d) + 2
          | Inr (Inr (doc, ps, cells, d)) \<Rightarrow> 3 * nat (MAX_NESTING_DEPTH - 1 - d) + 1,
         \<lambda>x. case x of
            Inl (doc, ps, soup, d) \<Rightarrow> 0
          | Inr (Inl (doc, ps, tables, d)) \<Rightarrow> length tables
          | Inr (Inr (doc, ps, cells, d)) \<Rightarrow> length cells]")
    (auto simp: MAX_NESTING_DEPTH_def)

subsection \<open>\<open>_process_conditional_blocks\<close>\<close>

text \<open>The first of the three \<open>if\<close> patterns that matches somewhere in the text, with its
  first group.\<close>

definition if_match :: "string \<Rightarrow> string option option" where
  "if_match text =
     (case rx_search if_simple text of
        Some grp \<Rightarrow> Some grp
      | None \<Rightarrow>
          (case rx_search if_complex text of
             Some grp \<Rightarrow> Some grp
           | None \<Rightarrow> rx_search if_multiline text))"

text \<open>The \<open>else\<close> branch changes the conditional on top of the stack:
  \<open>current_conditional\<close> is that object whenever the stack is not empty, and \<open>None\<close>
  when it is empty.\<close>

definition mark_else :: "structure_node \<Rightarrow> structure_node" where
  "mark_else n =
     (case n of Structure_node ty d c ch a f ci \<Rightarrow>
        Structure_node ty d c ch a f
          (map_option (\<lambda>info. info\<lparr>cond_type := IF_THEN_ELSE,
                                     branches := branches info @ [''else'']\<rparr>) ci))"

text \<open>
  The loop over the text nodes. Its state is the document, the statistics, the stack of
  open conditionals and the nodes appended to \<open>parent.children\<close> so far. An unclosed
  conditional stays on the stack; nothing appends it to the tree.
\<close>

fun conditional_loop ::
  "path list \<Rightarrow> dom \<Rightarrow> parser \<Rightarrow> structure_node list \<Rightarrow> structure_node list
    \<Rightarrow> structure_node list \<times> structure_node list \<times> dom \<times> parser" where
  "conditional_loop [] doc ps conditional_stack appended =
     (conditional_stack, appended, doc, ps)"
| "conditional_loop (text_node # text_nodes) doc ps conditional_stack appended =
     (let text = (case node_at doc text_node of Some (Text s) \<Rightarrow> s | _ \<Rightarrow> [])
      in case if_match text of
           Some grp \<Rightarrow>
             (let cond = (case grp of Some g \<Rightarrow> g | None \<Rightarrow> []);
                  current_conditional =
                    Structure_node CONDITIONAL (int (length conditional_stack) + 1)
                      (Content_str cond) [] [] []
                      (Some \<lparr>cond_type = IF_THEN, condition = cond, branches = [],
                             closed = None\<rparr>);
                  stack = conditional_stack @ [current_conditional]
              in conditional_loop text_nodes
                   (wrap text_node ''div''
                      [(''data-conditional'', Str ''if''), (''data-condition'', Str cond),
                       (''data-depth'', Str (str_of_int (int (length stack))))] doc)
                   (ps\<lparr>conditionals_parsed := conditionals_parsed ps + 1\<rparr>) stack appended)
         | None \<Rightarrow>
             if rx_search else_pattern text \<noteq> None
             then (if conditional_stack \<noteq> []
                   then conditional_loop text_nodes
                          (wrap text_node ''div''
                             [(''data-conditional'', Str ''else''),
                              (''data-depth'',
                               Str (str_of_int (int (length conditional_stack))))] doc)
                          ps (butlast conditional_stack @ [mark_else (last conditional_stack)])
                          appended
                   else conditional_loop text_nodes doc ps conditional_stack appended)
             else if rx_search endif_pattern text \<noteq> None
             then (if conditional_stack \<noteq> []
                   then conditional_loop text_nodes
                          (wrap text_node ''div''
                             [(''data-conditional'', Str ''endif''),
                              (''data-depth'',
                               Str (str_of_int (int (length (butlast conditional_stack)) + 1)))]
                             doc)
                          ps (butlast conditional_stack) (appended @ [last conditional_stack])
                   else conditional_loop text_nodes doc ps conditional_stack appended)
             else conditional_loop text_nodes doc ps conditional_stack appended)"

text \<open>\<open>int(elem.get('data-depth', 0))\<close> raises on a value that is no number.\<close>

fun mark_nested :: "path list \<Rightarrow> dom \<Rightarrow> exn + dom" where
  "mark_nested [] doc = Inr doc"
| "mark_nested (elem # elems) doc =
     (case get_attr doc elem ''data-depth'' of
        None \<Rightarrow> mark_nested elems doc
      | Some (Num i) \<Rightarrow>
          mark_nested elems
            (if 1 < i then set_attr elem ''data-nested-conditional'' ''true'' doc else doc)
      | Some (Strs l) \<Rightarrow> Inl ''TypeError''
      | Some (Str s) \<Rightarrow>
          (case int_of_str s of
             None \<Rightarrow> Inl ''ValueError''
           | Some i \<Rightarrow>
               mark_nested elems
                 (if 1 < i then set_attr elem ''data-nested-conditional'' ''true'' doc
                  else doc)))"

definition process_conditional_blocks ::
  "dom \<Rightarrow> parser \<Rightarrow> (exn + structure_node list \<times> dom) \<times> parser" where
  "process_conditional_blocks doc ps =
     (case conditional_loop (find_all_strings doc) doc ps [] [] of
        (conditional_stack, appended, doc1, ps1) \<Rightarrow>
          if 1 < length conditional_stack
          then (case mark_nested (find_all_with_attr doc1 ''data-conditional'') doc1 of
                  Inl e \<Rightarrow> (Inl e, ps1\<lparr>complex_structures := complex_structures ps1 + 1\<rparr>)
                | Inr doc2 \<Rightarrow>
                    (Inr (appended, doc2),
                     ps1\<lparr>complex_structures := complex_structures ps1 + 1\<rparr>))
          else (Inr (appended, doc1), ps1))"

subsection \<open>\<open>_process_mixed_content\<close> and \<open>_add_structure_metadata\<close>\<close>

fun mixed_loop ::
  "path list \<Rightarrow> dom \<Rightarrow> parser \<Rightarrow> int \<Rightarrow> structure_node list \<times> dom \<times> parser" where
  "mixed_loop [] doc ps parent_depth = ([], doc, ps)"
| "mixed_loop (cond_div # cond_divs) doc ps parent_depth =
     (let tables_in_conditional = find_all doc cond_div [''table'']
      in if tables_in_conditional \<noteq> []
         then (let mixed_node =
                     Structure_node MIXED (parent_depth + 1)
                       (Content_str ''conditional_with_table'') []
                       [(''condition'', (case get_attr doc cond_div ''data-condition'' of
                                           None \<Rightarrow> Str [] | Some v \<Rightarrow> v)),
                        (''table_count'', Num (int (length tables_in_conditional)))]
                       [] None;
                   doc1 = set_attr cond_div ''data-structure-type'' ''mixed-conditional-table'' doc;
                   doc2 = fold (\<lambda>table d.
                                  set_attr_value table ''data-conditional-depth''
                                    (case get_attr d cond_div ''data-depth'' of
                                       None \<Rightarrow> Str ''1'' | Some v \<Rightarrow> v)
                                    (set_attr table ''data-within-conditional'' ''true'' d))
                            tables_in_conditional doc1
               in case mixed_loop cond_divs doc2
                         (ps\<lparr>complex_structures := complex_structures ps + 1\<rparr>) parent_depth of
                    (nodes, doc3, ps1) \<Rightarrow> (mixed_node # nodes, doc3, ps1))
         else mixed_loop cond_divs doc ps parent_depth)"

definition process_mixed_content ::
  "dom \<Rightarrow> parser \<Rightarrow> int \<Rightarrow> structure_node list \<times> dom \<times> parser" where
  "process_mixed_content doc ps parent_depth =
     mixed_loop (find_all_attr_value doc [''div''] ''data-conditional'' ''if'') doc ps
       parent_depth"

definition structure_css :: string where
  "structure_css = [CHR 0x0A]
     @ ''        [data-nesting-level] { position: relative; }'' @ [CHR 0x0A]
     @ ''        [data-nesting-level='' @ [CHR 0x22] @ ''1'' @ [CHR 0x22]
       @ ''] { border-left: 2px solid #e0e0e0; }'' @ [CHR 0x0A]
     @ ''        [data-nesting-level='' @ [CHR 0x22] @ ''2'' @ [CHR 0x22]
       @ ''] { border-left: 2px solid #d0d0d0; }'' @ [CHR 0x0A]
     @ ''        [data-nesting-level='' @ [CHR 0x22] @ ''3'' @ [CHR 0x22]
       @ ''] { border-left: 2px solid #c0c0c0; }'' @ [CHR 0x0A]
     @ ''        [data-conditional] { background-color: rgba(255, 243, 205, 0.1); }'' @ [CHR 0x0A]
     @ ''        [data-nested-conditional] { background-color: rgba(255, 243, 205, 0.2); }''
       @ [CHR 0x0A]
     @ ''        [data-complex-content] { background-color: rgba(230, 247, 255, 0.1); }''
       @ [CHR 0x0A]
     @ ''        ''"

definition add_structure_metadata :: "dom \<Rightarrow> parser \<Rightarrow> dom" where
  "add_structure_metadata doc ps =
     (let doc1 = (case find_first doc [] [''body''] of
                    None \<Rightarrow> doc
                  | Some body \<Rightarrow>
                      set_attr body ''data-conditional-count'' (str_of_int (conditionals_parsed ps))
                        (set_attr body ''data-table-count'' (str_of_int (tables_parsed ps))
                           (set_attr body ''data-max-depth'' (str_of_int (max_depth_reached ps))
                              (set_attr body ''data-structure-parsed'' ''true'' doc))))
      in case find_first doc1 [] [''head''] of
           None \<Rightarrow> doc1
         | Some head \<Rightarrow> append_child head (Element ''style'' [] [Text structure_css]) doc1)"

subsection \<open>\<open>parse_document_structure\<close>\<close>

text \<open>BeautifulSoup's parser and printer.\<close>

record soup_env =
  parse_html :: "string \<Rightarrow> dom"
  soup_str :: "dom \<Rightarrow> string"

text \<open>The result holds the children given to the root, in order: tables, closed
  conditionals, mixed nodes.\<close>

definition parse_html_structure ::
  "soup_env \<Rightarrow> parser \<Rightarrow> string \<Rightarrow> (exn + structure_node list \<times> string) \<times> parser" where
  "parse_html_structure env ps html =
     (case process_nested_tables (parse_html env html) ps [] 0 of
        (table_nodes, doc1, ps1) \<Rightarrow>
          (case process_conditional_blocks doc1 ps1 of
             (Inl e, ps2) \<Rightarrow> (Inl e, ps2)
           | (Inr (conditional_nodes, doc2), ps2) \<Rightarrow>
               (case process_mixed_content doc2 ps2 0 of
                  (mixed_nodes, doc3, ps3) \<Rightarrow>
                    (Inr (table_nodes @ conditional_nodes @ mixed_nodes,
                          soup_str env (add_structure_metadata doc3 ps3)), ps3))))"

fun text_lines :: "string list \<Rightarrow> parser \<Rightarrow> string list \<times> parser" where
  "text_lines [] ps = ([], ps)"
| "text_lines (line # lines) ps =
     (if list_ex (\<lambda>pattern. rx_search pattern line \<noteq> None) CONDITIONAL_PATTERNS
      then (case text_lines lines (ps\<lparr>conditionals_parsed := conditionals_parsed ps + 1\<rparr>) of
              (enhanced_lines, ps1) \<Rightarrow>
                ((''<!-- CONDITIONAL: '' @ strip line @ '' -->'' @ [CHR 0x0A] @ line)
                   # enhanced_lines, ps1))
      else (case text_lines lines ps of
              (enhanced_lines, ps1) \<Rightarrow> (line # enhanced_lines, ps1)))"

definition parse_text_structure :: "parser \<Rightarrow> string \<Rightarrow> string \<times> parser" where
  "parse_text_structure ps text =
     (case text_lines (split_on (CHR 0x0A) text) ps of
        (enhanced_lines, ps1) \<Rightarrow> (join_with [CHR 0x0A] enhanced_lines, ps1))"

fun calculate_max_depth :: "structure_node \<Rightarrow> int" where
  "calculate_max_depth (Structure_node ty d c ch a f ci) =
     (case ch of
        [] \<Rightarrow> d
      | child # others \<Rightarrow>
          fold max (map calculate_max_depth others) (calculate_max_depth child))"

definition document_root :: structure_node where
  "document_root = Structure_node SECTION 0 (Content_str ''document_root'') [] [] [] None"

definition parse_document_structure ::
  "soup_env \<Rightarrow> parser \<Rightarrow> string \<Rightarrow> (exn + structure_node \<times> string) \<times> parser" where
  "parse_document_structure env ps content =
     (if content = [] then (Inr (document_root, []), ps)
      else (case (if CHR ''<'' \<in> set content \<and> CHR ''>'' \<in> set content
                  then (case parse_html_structure env ps content of
                          (Inl e, ps1) \<Rightarrow> (Inl e, ps1)
                        | (Inr (nodes, enhanced_html), ps1) \<Rightarrow>
                            (Inr (Structure_node SECTION 0 (Content_str ''document_root'') nodes
                                    [] [] None, enhanced_html), ps1))
                  else (case parse_text_structure ps content of
                          (enhanced_html, ps1) \<Rightarrow> (Inr (document_root, enhanced_html), ps1)))
            of (Inl e, ps1) \<Rightarrow> (Inl e, ps1)
             | (Inr (root, enhanced_html), ps1) \<Rightarrow>
                 (Inr (root, enhanced_html),
                  ps1\<lparr>max_depth_reached := calculate_max_depth root\<rparr>)))"

subsection \<open>\<open>validate_structure\<close>\<close>

fun find_unclosed_conditionals :: "structure_node \<Rightarrow> structure_node list" where
  "find_unclosed_conditionals (Structure_node ty d c ch a f ci) =
     (if ty = CONDITIONAL \<and> (case ci of None \<Rightarrow> False | Some info \<Rightarrow> closed info = Some False)
      then [Structure_node ty d c ch a f ci] else [])
     @ concat (map find_unclosed_conditionals ch)"

fun find_invalid_nesting :: "structure_node \<Rightarrow> string list" where
  "find_invalid_nesting (Structure_node ty d c ch a f ci) =
     (if ty = TABLE \<and> 5 < d
      then [''Table nested '' @ str_of_int d @ '' levels deep may cause rendering issues'']
      else [])
     @ (if ty = MIXED \<and> 3 < d then [''Complex mixed structure at depth '' @ str_of_int d]
        else [])
     @ concat (map find_invalid_nesting ch)"

fun count_nodes :: "structure_node \<Rightarrow> int" where
  "count_nodes (Structure_node ty d c ch a f ci) = 1 + sum_list (map count_nodes ch)"

fun count_by_type :: "structure_node \<Rightarrow> structure_type \<Rightarrow> int" where
  "count_by_type (Structure_node ty d c ch a f ci) t =
     (if ty = t then 1 else 0) + sum_list (map (\<lambda>child. count_by_type child t) ch)"

record structure_summary =
  total_nodes :: int
  summary_max_depth :: int
  table_nodes :: int
  conditional_nodes :: int
  mixed_nodes :: int

record validation_results =
  is_valid :: bool
  errors :: "string list"
  warnings :: "string list"
  summary :: structure_summary

definition validate_structure :: "structure_node \<Rightarrow> validation_results" where
  "validate_structure root =
     (let max_d = calculate_max_depth root;
          open_conditionals = find_unclosed_conditionals root
      in \<lparr>is_valid = (open_conditionals = []),
          errors = (if open_conditionals \<noteq> []
                    then [''Found '' @ str_of_int (int (length open_conditionals))
                            @ '' unclosed conditional blocks'']
                    else []),
          warnings = (if MAX_NESTING_DEPTH < max_d
                      then [''Structure depth '' @ str_of_int max_d
                              @ '' exceeds recommended maximum '' @ str_of_int MAX_NESTING_DEPTH]
                      else [])
                     @ find_invalid_nesting root,
          summary = \<lparr>total_nodes = count_nodes root, summary_max_depth = max_d,
                      table_nodes = count_by_type root TABLE,
                      conditional_nodes = count_by_type root CONDITIONAL,
                      mixed_nodes = count_by_type root MIXED\<rparr>\<rparr>)"

subsection \<open>Documents for the examples\<close>

text \<open>
  A document with a table in a cell of a table, and a parser that knows three inputs:
  that document, and paragraphs with an opening \<open>if\<close> marker, without and with its
  \<open>endif\<close>. Printing is not needed by the examples.
\<close>

definition nested_tables_doc :: dom where
  "nested_tables_doc =
     Element ''[document]'' []
       [Element ''table'' []
          [Element ''tr'' []
             [Element ''td'' []
                [Element ''table'' [] [Element ''tr'' [] [Element ''td'' [] [Text ''x'']]]]]]]"

text \<open>
  \<open>nest n d\<close> puts \<open>d\<close> into the one cell of a table, \<open>n\<close> times over;
  \<open>eleven_tables\<close> is a document of eleven tables, each but the outermost standing in
  the one cell of the table around it. The outermost table has the path \<open>[0]\<close> and the
  innermost the path of 31 zeros; the cell that holds the innermost has the path of 30
  zeros.
\<close>

fun nest :: "nat \<Rightarrow> dom \<Rightarrow> dom" where
  "nest 0 d = d"
| "nest (Suc n) d = Element ''table'' [] [Element ''tr'' [] [Element ''td'' [] [nest n d]]]"

definition eleven_tables :: dom where
  "eleven_tables = Element ''[document]'' [] [nest 11 (Text ''x'')]"

text \<open>How deep an element is nested in tables: the number of tables among the element
  and the elements around it.\<close>

definition nesting_level :: "dom \<Rightarrow> path \<Rightarrow> nat" where
  "nesting_level doc p =
     length (filter (\<lambda>n. is_tag [''table''] (node_at doc (take n p))) [1..<Suc (length p)])"

text \<open>A document without its attributes. The table walk changes attributes only, and
  \<open>find_all\<close> by tag name does not read them.\<close>

fun shape :: "dom \<Rightarrow> dom" where
  "shape (Element t a ks) = Element t [] (map shape ks)"
| "shape (Text s) = Text s"

definition demo_soup :: soup_env where
  "demo_soup = \<lparr>
     parse_html = (\<lambda>html.
        if html = ''<p>{% if X %}</p><p>A</p>''
        then Element ''[document]'' []
               [Element ''p'' [] [Text ''{% if X %}''], Element ''p'' [] [Text ''A'']]
        else if html = ''<p>{% if X %}</p><p>A</p><p>{% endif %}</p>''
        then Element ''[document]'' []
               [Element ''p'' [] [Text ''{% if X %}''], Element ''p'' [] [Text ''A''],
                Element ''p'' [] [Text ''{% endif %}'']]
        else if html = ''<table><tr><td><table><tr><td>x</td></tr></table></td></tr></table>''
        then nested_tables_doc
        else Element ''[document]'' [] [Text html]),
     soup_str = (\<lambda>doc. [])\<rparr>"

subsection \<open>Bounds on a structure tree\<close>

text \<open>Every node of the tree has a depth of at most \<open>b\<close>.\<close>

fun depth_within :: "int \<Rightarrow> structure_node \<Rightarrow> bool" where
  "depth_within b (Structure_node ty d c ch a f ci) = (d \<le> b \<and> list_all (depth_within b) ch)"

text \<open>What holds of every node the table walk makes, and of every conditional the
  conditional pass makes: such a conditional has no children and no key \<open>closed\<close>.\<close>

definition table_node_ok :: "structure_node \<Rightarrow> bool" where
  "table_node_ok n \<longleftrightarrow> depth_within MAX_NESTING_DEPTH n \<and> find_unclosed_conditionals n = []"

definition plain_conditional :: "structure_node \<Rightarrow> bool" where
  "plain_conditional n \<longleftrightarrow> node_children n = []
     \<and> (case node_conditional_info n of None \<Rightarrow> True | Some info \<Rightarrow> closed info = None)"

declare process_nested_tables.simps [simp del] process_tables.simps [simp del]
  process_cells.simps [simp del]

section \<open>Properties of the resolver\<close>

lemmas resolver_induct = resolve_document_resolve_references_resolve_single_reference_load_and_convert_document_load_content_block_load_referenced_content.induct

lemma frame_refl: "frame s s"
  by (simp add: frame_def)
lemma frame_trans: "frame s s1 \<Longrightarrow> frame s1 s2 \<Longrightarrow> frame s s2"
  unfolding frame_def by (intro conjI allI impI; (elim conjE)?) (simp, simp, simp, simp, metis)

lemma frame_other_fields:
  "frame s (s'\<lparr>circular_references := a\<rparr>) = frame s s'"
  "frame s (s'\<lparr>failed_resolutions := a\<rparr>) = frame s s'"
  "frame s (s'\<lparr>total_resolutions := a\<rparr>) = frame s s'"
  "frame s (s'\<lparr>dependency_graph := g\<rparr>) = frame s s'"
  "frame (s\<lparr>circular_references := a\<rparr>) s' = frame s s'"
  "frame (s\<lparr>failed_resolutions := a\<rparr>) s' = frame s s'"
  "frame (s\<lparr>total_resolutions := a\<rparr>) s' = frame s s'"
  "frame (s\<lparr>dependency_graph := g\<rparr>) s' = frame s s'"
  by (simp_all add: frame_def)

lemma frame_hit: "frame s (s\<lparr>cache_hits := cache_hits s + 1\<rparr>)"
  by (simp add: frame_def)

lemma frame_miss: "frame (s\<lparr>cache_misses := cache_misses s + 1\<rparr>) s' \<Longrightarrow> frame s s'"
  by (simp add: frame_def)

lemma frame_write:
  "frame s s' \<Longrightarrow> c \<noteq> [] \<Longrightarrow> cache s k = None
    \<Longrightarrow> frame s (s'\<lparr>cache := (cache s')(k \<mapsto> c)\<rparr>)"
  by (auto simp: frame_def)

lemma frame_pop:
  assumes "frame (s\<lparr>resolution_stack := resolution_stack s @ [d], total_resolutions := n\<rparr>) s'"
  shows "resolution_stack s' \<noteq> []"
    and "frame s (s'\<lparr>resolution_stack := butlast (resolution_stack s')\<rparr>)"
  using assms by (simp_all add: frame_def)

lemma frame_all:
  "frame s (snd (resolve_document cfg env s doc html depth))"
  "frame s (snd (resolve_references cfg env s doc refs rhtml st depth))"
  "frame s (snd (resolve_single_reference cfg env s rt rp depth))"
  "frame s (snd (load_and_convert_document cfg env s p depth))"
  "frame s (snd (load_content_block cfg env s bn depth))"
  "frame s (snd (load_referenced_content cfg env s rid depth))"
proof (induction cfg env s doc html depth and cfg env s doc refs rhtml st depth
    and cfg env s rt rp depth and cfg env s p depth and cfg env s bn depth and cfg env s rid depth
    rule: resolver_induct)
  case (1 cfg env s doc_path html_content depth)
  define s1 where "s1 = s\<lparr>resolution_stack := resolution_stack s @ [doc_path],
                 total_resolutions := total_resolutions s + 1\<rparr>"
  define refs where "refs = extract_references env html_content"
  show ?case
  proof (cases "max_depth cfg < depth \<or> doc_path \<in> set (resolution_stack s)")
    case True
    then show ?thesis
      by (auto simp: resolve_document.simps frame_other_fields frame_refl)
  next
    case False
    show ?thesis
    proof (cases "refs = []")
      case True
      have "frame s1 s1" by (rule frame_refl)
      from frame_pop[OF this[unfolded s1_def]] show ?thesis
        using False True
        by (simp add: resolve_document.simps Let_def refs_def[symmetric] s1_def[symmetric])
    next
      case nonempty: False
      have ih: "frame s1 (snd (resolve_references cfg env s1 doc_path refs html_content
                 \<lparr>references_found = int (length refs), resolved = 0, failed = 0, from_cache = 0\<rparr> depth))"
        using 1[OF _ _ s1_def refs_def nonempty] False by simp
      from frame_pop[OF ih[unfolded s1_def]] show ?thesis
        using False nonempty
        by (simp add: resolve_document.simps Let_def refs_def[symmetric] s1_def[symmetric]
            split: prod.splits sum.splits)
          (auto simp: s1_def)
    qed
  qed
next
  case (2 cfg env s doc_path resolved_html resolution_stats depth)
  show ?case by (simp add: resolve_references.simps frame_refl)
next
  case (3 cfg env s doc_path ref_type ref_path references resolved_html resolution_stats depth)
  obtain x y where xy: "resolve_single_reference cfg env s ref_type ref_path (depth + 1) = (x, y)"
    by (cases "resolve_single_reference cfg env s ref_type ref_path (depth + 1)")
  have f1: "frame s y" using 3(1) xy by simp
  show ?case
    using 3(2)[OF xy[symmetric]] 3(3)[OF xy[symmetric]] f1 xy
    by (subst resolve_references.simps)
      (auto simp: frame_other_fields split: sum.splits intro: frame_trans)
next
  case (4 cfg env s ref_type ref_path depth)
  define key where "key = generate_cache_key env ref_type ref_path"
  define s0 where "s0 = s\<lparr>cache_misses := cache_misses s + 1\<rparr>"
  show ?case
  proof (cases "cache s key")
    case (Some v)
    then show ?thesis
      by (subst resolve_single_reference.simps) (simp add: Let_def key_def[symmetric] frame_hit)
  next
    case None
    note miss = None
    define r where "r =
      (if ref_type \<in> set [''double_curly'', ''include_directive'', ''sharedo_content'']
         then (case load_and_convert_document cfg env s0 ref_path depth of (c, s1) \<Rightarrow> (Inr c, s1))
       else if ref_type = ''content_block'' then load_content_block cfg env s0 ref_path depth
       else if ref_type = ''data_attribute'' then load_referenced_content cfg env s0 ref_path depth
       else (Inr None, s0))"
    have ih1: "frame s0 (snd (load_and_convert_document cfg env s0 ref_path depth))"
      if "ref_type \<in> set [''double_curly'', ''include_directive'', ''sharedo_content'']"
      unfolding s0_def by (rule 4(1)[OF key_def None that])
    have ih2: "frame s0 (snd (load_content_block cfg env s0 ref_path depth))"
      if "ref_type \<notin> set [''double_curly'', ''include_directive'', ''sharedo_content'']"
        "ref_type = ''content_block''"
      unfolding s0_def by (rule 4(2)[OF key_def None that])
    have ih3: "frame s0 (snd (load_referenced_content cfg env s0 ref_path depth))"
      if "ref_type \<notin> set [''double_curly'', ''include_directive'', ''sharedo_content'']"
        "ref_type \<noteq> ''content_block''" "ref_type = ''data_attribute''"
      unfolding s0_def by (rule 4(3)[OF key_def None that])
    have "frame s0 (snd r)"
    proof (cases "ref_type \<in> set [''double_curly'', ''include_directive'', ''sharedo_content'']")
      case True
      have a: "frame s0 (snd (load_and_convert_document cfg env s0 ref_path depth))"
        by (rule ih1[OF True])
      have "r = (case load_and_convert_document cfg env s0 ref_path depth of
                   (c, s1) \<Rightarrow> (Inr c, s1))"
        unfolding r_def using True by (simp only: if_True)
      then show ?thesis
        using a by (cases "load_and_convert_document cfg env s0 ref_path depth") simp
    next
      case f1: False
      show ?thesis
      proof (cases "ref_type = ''content_block''")
        case True
        have "r = load_content_block cfg env s0 ref_path depth"
          unfolding r_def using f1 True by simp
        then show ?thesis
          using ih2[OF f1 True] by simp
      next
        case f2: False
        show ?thesis
        proof (cases "ref_type = ''data_attribute''")
          case True
          have "r = load_referenced_content cfg env s0 ref_path depth"
            unfolding r_def using f1 f2 True by simp
          then show ?thesis
            using ih3[OF f1 f2 True] by simp
        next
          case False
          have "r = (Inr None, s0)"
            unfolding r_def using f1 f2 False by simp
          then show ?thesis
            by (simp add: frame_refl)
        qed
      qed
    qed
    then have fr: "frame s (snd r)"
      unfolding s0_def by (rule frame_miss)
    have res: "resolve_single_reference cfg env s ref_type ref_path depth =
      (case r of (Inl e, s2) \<Rightarrow> (Inl e, s2)
       | (Inr resolved_content, s2) \<Rightarrow>
           (Inr resolved_content,
            (case resolved_content of None \<Rightarrow> s2
             | Some c \<Rightarrow> if c \<noteq> [] then s2\<lparr>cache := (cache s2)(key \<mapsto> c)\<rparr> else s2)))"
      by (subst resolve_single_reference.simps)
        (simp add: Let_def key_def[symmetric] None s0_def[symmetric] r_def)
    obtain x s2 where r: "r = (x, s2)"
      by (cases r)
    with fr have fr2: "frame s s2"
      by simp
    show ?thesis
    proof (cases x)
      case (Inl e)
      with r fr2 show ?thesis
        unfolding res by simp
    next
      case (Inr resolved_content)
      show ?thesis
      proof (cases resolved_content)
        case None
        with r Inr fr2 show ?thesis
          unfolding res by simp
      next
        case (Some c)
        with r Inr fr2 show ?thesis
          unfolding res by (simp add: frame_write miss)
      qed
    qed
  qed
next
  case (5 cfg env s ref_path depth)
  show ?case
  proof (cases "\<exists>full_path html fragment. resolve_path cfg env ref_path = Inr (Some full_path)
      \<and> fs_exists env full_path = Inr True \<and> lower (path_suffix env full_path) = ''.docx''
      \<and> convert_docx env full_path = Inr (True, html) \<and> body_fragment env html = Inr fragment
      \<and> depth < max_depth cfg")
    case True
    then obtain full_path html fragment where c:
      "resolve_path cfg env ref_path = Inr (Some full_path)" "fs_exists env full_path = Inr True"
      "lower (path_suffix env full_path) = ''.docx''"
      "convert_docx env full_path = Inr (True, html)" "body_fragment env html = Inr fragment"
      "depth < max_depth cfg"
      by blast
    have "frame s (snd (resolve_document cfg env s full_path fragment depth))"
      by (rule 5[OF c(1) refl _ c(3) c(4) refl _ c(5) c(6)]) (simp_all add: c)
    then show ?thesis
      by (subst load_and_convert_document.simps)
        (auto simp: c split: prod.splits sum.splits)
  next
    case False
    then have "snd (load_and_convert_document cfg env s ref_path depth) = s"
      by (subst load_and_convert_document.simps)
        (auto split: sum.splits option.splits prod.splits)
    then show ?thesis by (simp add: frame_refl)
  qed
next
  case (6 cfg env s block_name depth)
  show ?case
    using 6
    by (subst load_content_block.simps)
      (auto simp: frame_refl split: prod.splits sum.splits option.splits)
next
  case (7 cfg env s ref_id depth)
  obtain x y where xy: "load_and_convert_document cfg env s ref_id depth = (x, y)"
    by (cases "load_and_convert_document cfg env s ref_id depth")
  have f1: "frame s y" using 7(1) xy by simp
  show ?case
    using 7(2)[OF xy[symmetric]] f1 xy
    by (subst load_referenced_content.simps)
      (auto simp: frame_refl split: prod.splits sum.splits intro: frame_trans)
qed




text \<open>
  Claim C6. Whatever way a call of \<open>resolve_document\<close> ends (one of the two entry guards,
  the early return when no reference is found, the normal return after the loop, or an
  exception that leaves the body), the resolution stack after the call is the resolution
  stack before it: the identifier pushed after the guards is popped by the \<open>finally\<close>
  block, and the nested calls in between leave the stack as they found it.
\<close>

theorem resolution_stack_restored:
  "resolution_stack (snd (resolve_document cfg env s doc_path html_content depth))
     = resolution_stack s"
  using frame_all(1)[of s cfg env doc_path html_content depth] by (simp add: frame_def)

theorem resolution_stack_restored_witness:
  "fst (resolve_document demo_cfg demo_env new_resolver ''main.html'' ''{{dc-x}}'' 0)
     = Inl ''PermissionError''
   \<and> resolution_stack
        (snd (resolve_document demo_cfg demo_env new_resolver ''main.html'' ''{{dc-x}}'' 0)) = []
   \<and> fst (resolve_document demo_cfg demo_env new_resolver ''main.html'' ''no reference'' 0)
     = Inr (''no reference'', No_references)
   \<and> resolution_stack
        (snd (resolve_document demo_cfg demo_env new_resolver ''main.html'' ''no reference'' 0)) = []"
proof -
  have a: "fst (resolve_document demo_cfg demo_env new_resolver ''main.html'' ''{{dc-x}}'' 0)
     = Inl ''PermissionError''"
    by code_simp
  have b: "fst (resolve_document demo_cfg demo_env new_resolver ''main.html'' ''no reference'' 0)
     = Inr (''no reference'', No_references)"
    by code_simp
  have c: "resolution_stack new_resolver = []"
    by (simp add: new_resolver_def)
  show ?thesis
    using a b c
      resolution_stack_restored[of demo_cfg demo_env new_resolver "''main.html''" "''{{dc-x}}''" 0]
      resolution_stack_restored[of demo_cfg demo_env new_resolver "''main.html''" "''no reference''" 0]
    by simp
qed

text \<open>
  Claim C4. The two entry guards, in the order in which the code tests them. A call with
  \<open>depth > max_depth\<close> returns the input HTML with the flag \<open>max_depth_exceeded\<close>
  and the state untouched. A call that passes this first guard and whose identifier is on
  the resolution stack returns the input HTML with the flag \<open>circular_reference\<close>, and
  the state differs only in the circular-reference counter, which is one higher.
\<close>

theorem resolve_document_entry_guards:
  "(max_depth cfg < depth \<longrightarrow>
      resolve_document cfg env s doc_path html_content depth
        = (Inr (html_content, Error_flag ''max_depth_exceeded''), s))
   \<and> (depth \<le> max_depth cfg \<and> doc_path \<in> set (resolution_stack s) \<longrightarrow>
      resolve_document cfg env s doc_path html_content depth
        = (Inr (html_content, Error_flag ''circular_reference''),
           s\<lparr>circular_references := circular_references s + 1\<rparr>))"
  by (simp add: resolve_document.simps)

theorem resolve_document_entry_guards_witness:
  "resolve_document demo_cfg demo_env new_resolver ''main.html'' ''x'' 6
     = (Inr (''x'', Error_flag ''max_depth_exceeded''), new_resolver)
   \<and> resolve_document demo_cfg demo_env (new_resolver\<lparr>resolution_stack := [''main.html'']\<rparr>)
        ''main.html'' ''x'' 1
     = (Inr (''x'', Error_flag ''circular_reference''),
        new_resolver\<lparr>resolution_stack := [''main.html''], circular_references := 1\<rparr>)"
  using resolve_document_entry_guards[of demo_cfg 6 demo_env new_resolver "''main.html''" "''x''"]
    resolve_document_entry_guards[of demo_cfg 1 demo_env
      "new_resolver\<lparr>resolution_stack := [''main.html'']\<rparr>" "''main.html''" "''x''"]
  by (simp add: demo_cfg_def new_resolver_def)

text \<open>
  Claim C7. \<open>clear_cache\<close> empties the cache and sets \<open>cache_hits\<close> and
  \<open>cache_misses\<close> to zero; the dependency graph, the resolution stack and the counters
  \<open>total_resolutions\<close>, \<open>circular_references\<close> and \<open>failed_resolutions\<close> keep their
  values.
\<close>

theorem clear_cache_frame:
  "cache (clear_cache s) = Map.empty
   \<and> cache_hits (clear_cache s) = 0
   \<and> cache_misses (clear_cache s) = 0
   \<and> dependency_graph (clear_cache s) = dependency_graph s
   \<and> resolution_stack (clear_cache s) = resolution_stack s
   \<and> total_resolutions (clear_cache s) = total_resolutions s
   \<and> circular_references (clear_cache s) = circular_references s
   \<and> failed_resolutions (clear_cache s) = failed_resolutions s"
  by (simp add: clear_cache_def)

lemma from_cache_loop:
  "resolve_references cfg env s doc refs rhtml st depth = (Inr (h, st'), s')
    \<Longrightarrow> from_cache st' = from_cache st"
proof (induction refs arbitrary: s rhtml st)
  case Nil
  then show ?case by (simp add: resolve_references.simps)
next
  case (Cons r refs)
  obtain rt rp where r: "r = (rt, rp)" by (cases r)
  obtain x s1 where x: "resolve_single_reference cfg env s rt rp (depth + 1) = (x, s1)"
    by (cases "resolve_single_reference cfg env s rt rp (depth + 1)")
  from Cons.prems show ?case
    unfolding r
    apply (subst (asm) resolve_references.simps)
    apply (simp add: x split: sum.splits if_splits)
    apply (auto dest: Cons.IH)
    done
qed

text \<open>
  Claim C10. When a call of \<open>resolve_document\<close> passes both entry guards, finds at least
  one reference and returns, the statistics it returns are the full dictionary, and its
  \<open>from_cache\<close> field is 0. In the witness the second of two equal references is served
  from the cache (the lifetime counter \<open>cache_hits\<close> is 1) and \<open>from_cache\<close> is still 0.
\<close>

theorem from_cache_always_zero:
  assumes "depth \<le> max_depth cfg"
    and "doc_path \<notin> set (resolution_stack s)"
    and "extract_references env html_content \<noteq> []"
    and "fst (resolve_document cfg env s doc_path html_content depth) = Inr (resolved_html, stats)"
  shows "\<exists>st. stats = Resolution st \<and> from_cache st = 0"
proof -
  define s1 where "s1 = s\<lparr>resolution_stack := resolution_stack s @ [doc_path],
    total_resolutions := total_resolutions s + 1\<rparr>"
  define refs where "refs = extract_references env html_content"
  obtain r s2 where loop: "resolve_references cfg env s1 doc_path refs html_content
      \<lparr>references_found = int (length refs), resolved = 0, failed = 0, from_cache = 0\<rparr> depth
      = (r, s2)"
    by (cases "resolve_references cfg env s1 doc_path refs html_content
      \<lparr>references_found = int (length refs), resolved = 0, failed = 0, from_cache = 0\<rparr> depth")
  from assms(4) obtain h st where r: "r = Inr (h, st)" and stats: "stats = Resolution st"
    using assms(1,2,3)
    by (subst (asm) resolve_document.simps)
      (auto simp: Let_def s1_def[symmetric] refs_def[symmetric] loop
        split: if_splits sum.splits prod.splits)
  from from_cache_loop[OF loop[unfolded r]] have "from_cache st = 0"
    by simp
  with stats show ?thesis by simp
qed

theorem from_cache_always_zero_witness:
  "(case fst (resolve_document demo_cfg demo_env new_resolver ''main.html''
                ''[content:a.html] [content:a.html]'' 0) of
      Inr (h, Resolution st) \<Rightarrow> from_cache st = 0 \<and> resolved st = 2
    | _ \<Rightarrow> False)
   \<and> cache_hits (snd (resolve_document demo_cfg demo_env new_resolver ''main.html''
                ''[content:a.html] [content:a.html]'' 0)) = 1"
proof -
  define R where "R = resolve_document demo_cfg demo_env new_resolver ''main.html''
                ''[content:a.html] [content:a.html]'' 0"
  have g1: "0 \<le> max_depth demo_cfg"
    by (simp add: demo_cfg_def)
  have g2: "''main.html'' \<notin> set (resolution_stack new_resolver)"
    by (simp add: new_resolver_def)
  have g3: "extract_references demo_env ''[content:a.html] [content:a.html]'' \<noteq> []"
    by code_simp
  have nr: "\<not> isl (fst R)"
    unfolding R_def by code_simp
  then obtain h stats where e: "fst R = Inr (h, stats)"
    by (cases "fst R") auto
  from from_cache_always_zero[OF g1 g2 g3 e[unfolded R_def]]
  obtain st where st: "stats = Resolution st" "from_cache st = 0"
    by blast
  have res: "map_sum id (\<lambda>(h, x). case x of Resolution st \<Rightarrow> resolved st | _ \<Rightarrow> -1) (fst R) = Inr 2"
    unfolding R_def by code_simp
  have hits: "cache_hits (snd R) = 1"
    unfolding R_def by code_simp
  from e st res hits show ?thesis
    unfolding R_def[symmetric] by simp
qed

lemma single_reference_hit:
  "cache s (generate_cache_key env ref_type ref_path) = Some c \<Longrightarrow>
   resolve_single_reference cfg env s ref_type ref_path depth
     = (Inr (Some c), s\<lparr>cache_hits := cache_hits s + 1\<rparr>)"
  by (subst resolve_single_reference.simps) (simp add: Let_def)

lemma single_reference_miss:
  assumes "cache s (generate_cache_key env ref_type ref_path) = None"
  shows "\<exists>r s2. frame (s\<lparr>cache_misses := cache_misses s + 1\<rparr>) s2
    \<and> resolve_single_reference cfg env s ref_type ref_path depth =
        (case r of
           Inl e \<Rightarrow> (Inl e, s2)
         | Inr resolved_content \<Rightarrow>
             (Inr resolved_content,
              (case resolved_content of
                 None \<Rightarrow> s2
               | Some c \<Rightarrow>
                   if c \<noteq> []
                   then s2\<lparr>cache := (cache s2)(generate_cache_key env ref_type ref_path \<mapsto> c)\<rparr>
                   else s2)))"
proof -
  define s0 where "s0 = s\<lparr>cache_misses := cache_misses s + 1\<rparr>"
  define r where "r =
    (if ref_type \<in> set [''double_curly'', ''include_directive'', ''sharedo_content'']
       then (case load_and_convert_document cfg env s0 ref_path depth of (c, s1) \<Rightarrow> (Inr c, s1))
     else if ref_type = ''content_block'' then load_content_block cfg env s0 ref_path depth
     else if ref_type = ''data_attribute'' then load_referenced_content cfg env s0 ref_path depth
     else (Inr None, s0))"
  have fr: "frame s0 (snd r)"
  proof (cases "ref_type \<in> set [''double_curly'', ''include_directive'', ''sharedo_content'']")
    case True
    have "r = (case load_and_convert_document cfg env s0 ref_path depth of
                 (c, s1) \<Rightarrow> (Inr c, s1))"
      unfolding r_def using True by (simp only: if_True)
    then show ?thesis
      using frame_all(4)[of s0 cfg env ref_path depth]
      by (cases "load_and_convert_document cfg env s0 ref_path depth") simp
  next
    case False
    then show ?thesis
      unfolding r_def
      using frame_all(5)[of s0 cfg env ref_path depth] frame_all(6)[of s0 cfg env ref_path depth]
      by (simp add: frame_refl)
  qed
  have res: "resolve_single_reference cfg env s ref_type ref_path depth =
    (case r of (Inl e, s2) \<Rightarrow> (Inl e, s2)
     | (Inr resolved_content, s2) \<Rightarrow>
         (Inr resolved_content,
          (case resolved_content of None \<Rightarrow> s2
           | Some c \<Rightarrow> if c \<noteq> []
               then s2\<lparr>cache := (cache s2)(generate_cache_key env ref_type ref_path \<mapsto> c)\<rparr>
               else s2)))"
    by (subst resolve_single_reference.simps)
      (simp add: Let_def assms s0_def[symmetric] r_def)
  obtain x s2 where r: "r = (x, s2)"
    by (cases r)
  show ?thesis
    apply (rule exI[of _ x])
    apply (rule exI[of _ s2])
    using fr r res
    by (simp add: s0_def split: sum.splits)
qed

text \<open>
  Claim C5, as amended. Let a resolution of a pair of kind and identifier return a
  non-empty fragment. Then the cache holds that fragment under the pair's key when the
  resolution returns, and if the key was not in the cache when it started, it raised
  \<open>cache_misses\<close> by at least one (by one for itself, and by more when nested
  references miss too). Every resolution of the pair that starts in a state whose cache
  holds the fragment under the key, at any depth, is a hit: it returns the same fragment
  and changes nothing of the state but \<open>cache_hits\<close>, which is one higher. Such states
  are kept by the resolver: a whole call of \<open>resolve_document\<close> or of
  \<open>_resolve_single_reference\<close>, with any arguments, leaves every entry that is in the
  cache when the call starts in the cache with its value. Every cache entry after the
  first resolution is an entry from before it or a non-empty string: only non-empty
  results are written. In the witness the second resolution starts after another document
  has been resolved in between.
\<close>

theorem cache_reuse:
  assumes "resolve_single_reference cfg env s ref_type ref_path depth = (Inr (Some c), after)"
    and "c \<noteq> []"
  shows "cache after (generate_cache_key env ref_type ref_path) = Some c
         \<and> (cache s (generate_cache_key env ref_type ref_path) = None
              \<longrightarrow> cache_misses s + 1 \<le> cache_misses after)
         \<and> (cache later (generate_cache_key env ref_type ref_path) = Some c
              \<longrightarrow> resolve_single_reference cfg env later ref_type ref_path depth_later
                    = (Inr (Some c), later\<lparr>cache_hits := cache_hits later + 1\<rparr>))
         \<and> (cache st k = Some v
              \<longrightarrow> cache (snd (resolve_document cfg' env' st doc_path html_content depth')) k
                    = Some v
                \<and> cache (snd (resolve_single_reference cfg' env' st ref_type' ref_path' depth')) k
                    = Some v)
         \<and> (\<forall>k v. cache after k = Some v \<longrightarrow> cache s k = Some v \<or> v \<noteq> [])"
proof -
  let ?key = "generate_cache_key env ref_type ref_path"
  have fr: "frame s after"
    using frame_all(3)[of s cfg env ref_type ref_path depth] assms(1) by simp
  have cached: "cache after ?key = Some c
      \<and> (cache s ?key = None \<longrightarrow> cache_misses s + 1 \<le> cache_misses after)"
  proof (cases "cache s ?key")
    case (Some v)
    from single_reference_hit[OF Some, of cfg depth] assms(1) show ?thesis
      using Some by auto
  next
    case None
    from single_reference_miss[OF None, of cfg depth] obtain r s2 where
      f: "frame (s\<lparr>cache_misses := cache_misses s + 1\<rparr>) s2"
      and e: "resolve_single_reference cfg env s ref_type ref_path depth =
        (case r of
           Inl e \<Rightarrow> (Inl e, s2)
         | Inr resolved_content \<Rightarrow>
             (Inr resolved_content,
              (case resolved_content of
                 None \<Rightarrow> s2
               | Some c \<Rightarrow>
                   if c \<noteq> [] then s2\<lparr>cache := (cache s2)(?key \<mapsto> c)\<rparr> else s2)))"
      by blast
    from e assms have "r = Inr (Some c)" and "after = s2\<lparr>cache := (cache s2)(?key \<mapsto> c)\<rparr>"
      by (auto split: sum.splits option.splits if_splits)
    with f show ?thesis
      by (simp add: frame_def)
  qed
  have hit: "cache later ?key = Some c
              \<longrightarrow> resolve_single_reference cfg env later ref_type ref_path depth_later
                    = (Inr (Some c), later\<lparr>cache_hits := cache_hits later + 1\<rparr>)"
    by (simp add: single_reference_hit)
  have keep: "cache st k = Some v
              \<longrightarrow> cache (snd (resolve_document cfg' env' st doc_path html_content depth')) k
                    = Some v
                \<and> cache (snd (resolve_single_reference cfg' env' st ref_type' ref_path' depth')) k
                    = Some v"
    using frame_all(1)[of st cfg' env' doc_path html_content depth']
      frame_all(3)[of st cfg' env' ref_type' ref_path' depth']
    by (simp add: frame_def)
  have nonempty: "\<forall>k v. cache after k = Some v \<longrightarrow> cache s k = Some v \<or> v \<noteq> []"
    using fr by (simp add: frame_def)
  from cached hit keep nonempty show ?thesis
    by blast
qed

theorem cache_reuse_witness:
  "resolve_single_reference demo_cfg demo_env new_resolver ''sharedo_content'' ''a.html'' 1
     = (Inr (Some ''<p>hi</p>''),
        new_resolver\<lparr>cache_misses := 1, cache := [''sharedo_content:a.html'' \<mapsto> ''<p>hi</p>'']\<rparr>)
   \<and> resolve_single_reference demo_cfg demo_env
        (snd (resolve_document demo_cfg demo_env
                (new_resolver\<lparr>cache_misses := 1,
                   cache := [''sharedo_content:a.html'' \<mapsto> ''<p>hi</p>'']\<rparr>)
                ''/srv/A.docx'' ''@include(B.docx)'' 0))
        ''sharedo_content'' ''a.html'' 3
     = (Inr (Some ''<p>hi</p>''),
        (snd (resolve_document demo_cfg demo_env
                (new_resolver\<lparr>cache_misses := 1,
                   cache := [''sharedo_content:a.html'' \<mapsto> ''<p>hi</p>'']\<rparr>)
                ''/srv/A.docx'' ''@include(B.docx)'' 0))
          \<lparr>cache_hits := cache_hits
             (snd (resolve_document demo_cfg demo_env
                (new_resolver\<lparr>cache_misses := 1,
                   cache := [''sharedo_content:a.html'' \<mapsto> ''<p>hi</p>'']\<rparr>)
                ''/srv/A.docx'' ''@include(B.docx)'' 0)) + 1\<rparr>)"
proof -
  define first_state where "first_state = new_resolver\<lparr>cache_misses := 1,
     cache := [''sharedo_content:a.html'' \<mapsto> ''<p>hi</p>'']\<rparr>"
  define later_state where "later_state =
     snd (resolve_document demo_cfg demo_env first_state ''/srv/A.docx'' ''@include(B.docx)'' 0)"
  have first: "resolve_single_reference demo_cfg demo_env new_resolver ''sharedo_content'' ''a.html'' 1
     = (Inr (Some ''<p>hi</p>''), first_state)"
    by (simp add: resolve_single_reference.simps load_and_convert_document.simps Let_def
        generate_cache_key_def demo_env_def demo_cfg_def new_resolver_def resolve_path_def
        strip_chars_def starts_with_def demo_suffix_def lower_def lower_char_def
        capital_letters_def small_letters_def first_state_def)
  have ne: "''<p>hi</p>'' \<noteq> []"
    by simp
  have key: "generate_cache_key demo_env ''sharedo_content'' ''a.html'' = ''sharedo_content:a.html''"
    by (simp add: generate_cache_key_def demo_env_def)
  have here: "cache first_state ''sharedo_content:a.html'' = Some ''<p>hi</p>''"
    by (simp add: first_state_def)
  note facts = cache_reuse[OF first ne, where later = later_state and depth_later = 3
      and st = first_state and k = "''sharedo_content:a.html''" and v = "''<p>hi</p>''"
      and cfg' = demo_cfg and env' = demo_env and doc_path = "''/srv/A.docx''"
      and html_content = "''@include(B.docx)''" and depth' = 0, unfolded key]
  from facts here have "cache later_state ''sharedo_content:a.html'' = Some ''<p>hi</p>''"
    unfolding later_state_def by blast
  with facts have "resolve_single_reference demo_cfg demo_env later_state ''sharedo_content'' ''a.html'' 3
     = (Inr (Some ''<p>hi</p>''), later_state\<lparr>cache_hits := cache_hits later_state + 1\<rparr>)"
    by blast
  with first show ?thesis
    unfolding later_state_def first_state_def by simp
qed

text \<open>
  The counterexample to C5 as stated: a document that includes itself. The resolution of
  the pair of \<open>include_directive\<close> and \<open>X.docx\<close> that \<open>resolve_document\<close> starts
  at depth 1 loads the document and resolves the fragment \<open>@include(X.docx)\<close>, which
  starts a second resolution of the same pair at depth 2, in the state given below, before
  the first has written its entry. The second one misses too; the third call for the
  document is cut as circular, so the second returns the bare fragment and writes it to the
  cache. The first one then returns the wrapped fragment and writes that under the same
  key. The pair is resolved twice on one resolver: \<open>cache_misses\<close> is 2,
  \<open>cache_hits\<close> is 0, and the two results differ.
\<close>

theorem nested_resolution_counterexample:
  "fst (resolve_single_reference demo_cfg demo_env new_resolver ''include_directive'' ''X.docx'' 1)
     = Inr (Some (wrapped_content ''include_directive'' ''X.docx'' ''@include(X.docx)''))
   \<and> cache_misses (snd (resolve_single_reference demo_cfg demo_env new_resolver
        ''include_directive'' ''X.docx'' 1)) = 2
   \<and> cache_hits (snd (resolve_single_reference demo_cfg demo_env new_resolver
        ''include_directive'' ''X.docx'' 1)) = 0
   \<and> cache (snd (resolve_single_reference demo_cfg demo_env new_resolver
        ''include_directive'' ''X.docx'' 1)) ''include_directive:X.docx''
     = Some (wrapped_content ''include_directive'' ''X.docx'' ''@include(X.docx)'')
   \<and> fst (resolve_single_reference demo_cfg demo_env
        (new_resolver\<lparr>cache_misses := 1, resolution_stack := [''/srv/X.docx''],
           total_resolutions := 1\<rparr>) ''include_directive'' ''X.docx'' 2)
     = Inr (Some ''@include(X.docx)'')
   \<and> cache (snd (resolve_single_reference demo_cfg demo_env
        (new_resolver\<lparr>cache_misses := 1, resolution_stack := [''/srv/X.docx''],
           total_resolutions := 1\<rparr>) ''include_directive'' ''X.docx'' 2))
        ''include_directive:X.docx''
     = Some ''@include(X.docx)''
   \<and> cache_misses (snd (resolve_single_reference demo_cfg demo_env
        (new_resolver\<lparr>cache_misses := 1, resolution_stack := [''/srv/X.docx''],
           total_resolutions := 1\<rparr>) ''include_directive'' ''X.docx'' 2)) = 2
   \<and> wrapped_content ''include_directive'' ''X.docx'' ''@include(X.docx)'' \<noteq> ''@include(X.docx)''"
proof -
  have outer: "(case resolve_single_reference demo_cfg demo_env new_resolver
                 ''include_directive'' ''X.docx'' 1 of
                (r, s') \<Rightarrow> (r, cache_misses s', cache_hits s', cache s' ''include_directive:X.docx''))
     = (Inr (Some (wrapped_content ''include_directive'' ''X.docx'' ''@include(X.docx)'')), 2, 0,
        Some (wrapped_content ''include_directive'' ''X.docx'' ''@include(X.docx)''))"
    by code_simp
  have inner: "(case resolve_single_reference demo_cfg demo_env
                 (new_resolver\<lparr>cache_misses := 1, resolution_stack := [''/srv/X.docx''],
                    total_resolutions := 1\<rparr>) ''include_directive'' ''X.docx'' 2 of
                (r, s') \<Rightarrow> (r, cache_misses s', cache s' ''include_directive:X.docx''))
     = (Inr (Some ''@include(X.docx)''), 2, Some ''@include(X.docx)'')"
    by code_simp
  have differ: "wrapped_content ''include_directive'' ''X.docx'' ''@include(X.docx)'' \<noteq> ''@include(X.docx)''"
    by (simp add: wrapped_content_def)
  from outer inner differ show ?thesis
    by (simp add: case_prod_beta)
qed

lemma resolver_total:
  "All resolve_document_resolve_references_resolve_single_reference_load_and_convert_document_load_content_block_load_referenced_content_dom"
  by (relation "measures
        [\<lambda>x. case x of
            Inl (Inl (cfg, env, s, doc_path, html, depth)) \<Rightarrow>
              2 * nat (max_depth cfg - depth + 1)
          | Inl (Inr (Inl (cfg, env, s, doc_path, refs, html, st, depth))) \<Rightarrow>
              2 * nat (max_depth cfg - depth) + 1
          | Inl (Inr (Inr (cfg, env, s, ref_type, ref_path, depth))) \<Rightarrow>
              2 * nat (max_depth cfg - depth + 1) + 1
          | Inr (Inl (cfg, env, s, ref_path, depth)) \<Rightarrow>
              2 * nat (max_depth cfg - depth + 1) + 1
          | Inr (Inr (Inl (cfg, env, s, block_name, depth))) \<Rightarrow>
              2 * nat (max_depth cfg - depth + 1) + 1
          | Inr (Inr (Inr (cfg, env, s, ref_id, depth))) \<Rightarrow>
              2 * nat (max_depth cfg - depth + 1) + 1,
         \<lambda>x. case x of
            Inl (Inl (cfg, env, s, doc_path, html, depth)) \<Rightarrow> 0
          | Inl (Inr (Inl (cfg, env, s, doc_path, refs, html, st, depth))) \<Rightarrow> 4 + length refs
          | Inl (Inr (Inr (cfg, env, s, ref_type, ref_path, depth))) \<Rightarrow> 3
          | Inr (Inl (cfg, env, s, ref_path, depth)) \<Rightarrow> 0
          | Inr (Inr (Inl (cfg, env, s, block_name, depth))) \<Rightarrow> 1
          | Inr (Inr (Inr (cfg, env, s, ref_id, depth))) \<Rightarrow> 2]")
     auto

lemma loader_without_budget:
  "max_depth cfg \<le> depth \<Longrightarrow> snd (load_and_convert_document cfg env s ref_path depth) = s"
  by (subst load_and_convert_document.simps)
    (auto split: sum.splits option.splits prod.splits)

text \<open>
  Claim C1. \<open>resolve_document\<close> terminates on every input: every argument tuple lies in
  the domain of the recursion, that is, in the well-founded part of the relation between a
  call and the calls it makes, for every file system, converter output and reference
  graph (the surroundings are arbitrary functions). The measure that proves it decreases
  because the loop passes \<open>depth + 1\<close> to the loaders and a call with
  \<open>depth > max_depth\<close> returns at once; such a call gives back its input and the state as
  they are. A loader called with \<open>depth \<ge> max_depth\<close> does not re-enter
  \<open>resolve_document\<close>: it leaves the state as it is. The witness runs two documents that
  include each other: two resolutions start and one circular reference is counted.
\<close>

theorem resolve_document_terminates:
  "resolve_document_resolve_references_resolve_single_reference_load_and_convert_document_load_content_block_load_referenced_content_dom
     (Inl (Inl (cfg, env, s, doc_path, html_content, depth)))
   \<and> (max_depth cfg < depth \<longrightarrow>
        resolve_document cfg env s doc_path html_content depth
          = (Inr (html_content, Error_flag ''max_depth_exceeded''), s))
   \<and> (max_depth cfg \<le> depth \<longrightarrow>
        snd (load_and_convert_document cfg env s ref_path depth) = s)"
  using resolver_total by (simp add: resolve_document.simps loader_without_budget)

theorem resolve_document_terminates_witness:
  "resolve_document_resolve_references_resolve_single_reference_load_and_convert_document_load_content_block_load_referenced_content_dom
     (Inl (Inl (demo_cfg, demo_env, new_resolver, ''/srv/A.docx'', ''@include(B.docx)'', 0)))
   \<and> resolve_document demo_cfg demo_env new_resolver ''/srv/A.docx'' ''@include(B.docx)'' 6
          = (Inr (''@include(B.docx)'', Error_flag ''max_depth_exceeded''), new_resolver)
   \<and> snd (load_and_convert_document demo_cfg demo_env new_resolver ''B.docx'' 5) = new_resolver
   \<and> circular_references
        (snd (resolve_document demo_cfg demo_env new_resolver ''/srv/A.docx'' ''@include(B.docx)'' 0)) = 1
   \<and> total_resolutions
        (snd (resolve_document demo_cfg demo_env new_resolver ''/srv/A.docx'' ''@include(B.docx)'' 0)) = 2"
proof -
  have a: "circular_references
        (snd (resolve_document demo_cfg demo_env new_resolver ''/srv/A.docx'' ''@include(B.docx)'' 0)) = 1"
    by code_simp
  have b: "total_resolutions
        (snd (resolve_document demo_cfg demo_env new_resolver ''/srv/A.docx'' ''@include(B.docx)'' 0)) = 2"
    by code_simp
  have c: "max_depth demo_cfg = 5"
    by (simp add: demo_cfg_def)
  show ?thesis
    using a b c
      resolve_document_terminates[of demo_cfg demo_env new_resolver "''/srv/A.docx''"
        "''@include(B.docx)''" 0 "''B.docx''"]
      resolve_document_terminates[of demo_cfg demo_env new_resolver "''/srv/A.docx''"
        "''@include(B.docx)''" 6 "''B.docx''"]
      resolve_document_terminates[of demo_cfg demo_env new_resolver "''/srv/A.docx''"
        "''@include(B.docx)''" 5 "''B.docx''"]
    by simp
qed

text \<open>
  Claim C3 at the input \<open>{{content:a.html}}\<close>. The extractor finds the reference with
  the identifier \<open>a.html\<close>, its resolution succeeds with the fragment of the file, and
  the call counts it as resolved; but \<open>_embed_content\<close> searches for
  \<open>{{a.html}}\<close>, which is not the matched text, so the HTML returned is the input:
  no wrapper, no fragment.
\<close>

theorem double_curly_left_in_place:
  "fst (resolve_document demo_cfg demo_env new_resolver ''main.html'' ''{{content:a.html}}'' 0)
     = Inr (''{{content:a.html}}'',
            Resolution \<lparr>references_found = 1, resolved = 1, failed = 0, from_cache = 0\<rparr>)
   \<and> extract_references demo_env ''{{content:a.html}}'' = [(''double_curly'', ''a.html'')]
   \<and> fst (resolve_single_reference demo_cfg demo_env new_resolver ''double_curly'' ''a.html'' 1)
     = Inr (Some ''<p>hi</p>'')
   \<and> embed_content demo_env ''{{content:a.html}}'' ''double_curly'' ''a.html'' ''<p>hi</p>''
     = Inr ''{{content:a.html}}''"
  by code_simp

lemma finditer_positions:
  "(i, g) \<in> set (finditer p pos k s) \<Longrightarrow>
     pos + k \<le> i \<and> i < pos + length s \<and> (\<exists>n. match_at p (drop (i - pos) s) = Some (g, n))"
proof (induction s arbitrary: pos k)
  case Nil
  then show ?case by simp
next
  case (Cons c cs)
  show ?case
  proof (cases "0 < k")
    case True
    with Cons.prems have "(i, g) \<in> set (finditer p (pos + 1) (k - 1) cs)"
      by simp
    from Cons.IH[OF this] True show ?thesis
      by (auto simp: drop_Cons' Suc_diff_le)
  next
    case False
    show ?thesis
    proof (cases "match_at p (c # cs)")
      case None
      with False Cons.prems have "(i, g) \<in> set (finditer p (pos + 1) 0 cs)"
        by simp
      from Cons.IH[OF this] False show ?thesis
        by (auto simp: drop_Cons' Suc_diff_le)
    next
      case (Some m)
      obtain g' n where m: "m = (g', n)" by (cases m)
      from False Some m Cons.prems
      consider "i = pos" "g = g'" | "(i, g) \<in> set (finditer p (pos + 1) (n - 1) cs)"
        by auto
      then show ?thesis
      proof cases
        case 1
        with False Some m show ?thesis by simp
      next
        case 2
        from Cons.IH[OF this] False show ?thesis
          by (auto simp: drop_Cons' Suc_diff_le)
      qed
    qed
  qed
qed

lemma finditer_increasing: "sorted_wrt (<) (map fst (finditer p pos k s))"
proof (induction s arbitrary: pos k)
  case Nil
  then show ?case by simp
next
  case (Cons c cs)
  show ?case
    using Cons.IH finditer_positions[of _ _ p "pos + 1" _ cs]
    by (auto split: option.splits) fastforce
qed

text \<open>The matches \<open>finditer\<close> lists do not overlap, and every place where the pattern
  matches is a listed position or lies inside a listed match.\<close>

lemma finditer_disjoint:
  "(i, g) \<in> set (finditer p pos k s) \<Longrightarrow> (j, h) \<in> set (finditer p pos k s) \<Longrightarrow> i < j
    \<Longrightarrow> match_at p (drop (i - pos) s) = Some (g, n) \<Longrightarrow> i + n \<le> j"
proof (induction s arbitrary: pos k)
  case Nil
  then show ?case by simp
next
  case (Cons c cs)
  show ?case
  proof (cases "0 < k")
    case True
    with Cons.prems have a: "(i, g) \<in> set (finditer p (pos + 1) (k - 1) cs)"
      and b: "(j, h) \<in> set (finditer p (pos + 1) (k - 1) cs)"
      by simp_all
    from finditer_positions[OF a] have "pos + 1 \<le> i" by simp
    then have "drop (i - pos) (c # cs) = drop (i - (pos + 1)) cs"
      by (simp add: drop_Cons' Suc_diff_le)
    with Cons.prems(4) Cons.IH[OF a b Cons.prems(3)] show ?thesis
      by simp
  next
    case False
    show ?thesis
    proof (cases "match_at p (c # cs)")
      case None
      with False Cons.prems have a: "(i, g) \<in> set (finditer p (pos + 1) 0 cs)"
        and b: "(j, h) \<in> set (finditer p (pos + 1) 0 cs)"
        by simp_all
      from finditer_positions[OF a] have "pos + 1 \<le> i" by simp
      then have "drop (i - pos) (c # cs) = drop (i - (pos + 1)) cs"
        by (simp add: drop_Cons' Suc_diff_le)
      with Cons.prems(4) Cons.IH[OF a b Cons.prems(3)] show ?thesis
        by simp
    next
      case (Some m)
      obtain g' n' where m: "m = (g', n')" by (cases m)
      have l: "finditer p pos k (c # cs) = (pos, g') # finditer p (pos + 1) (n' - 1) cs"
        using False Some m by simp
      show ?thesis
      proof (cases "i = pos")
        case True
        with Cons.prems(4) Some m have n: "n = n'" by simp
        from Cons.prems(2,3) True l have "(j, h) \<in> set (finditer p (pos + 1) (n' - 1) cs)"
          by auto
        from finditer_positions[OF this] True n show ?thesis
          by auto
      next
        case ne: False
        with Cons.prems(1) l have a: "(i, g) \<in> set (finditer p (pos + 1) (n' - 1) cs)"
          by auto
        from finditer_positions[OF a] have ip: "pos + 1 \<le> i" by simp
        with Cons.prems(2,3) l have b: "(j, h) \<in> set (finditer p (pos + 1) (n' - 1) cs)"
          by auto
        from ip have "drop (i - pos) (c # cs) = drop (i - (pos + 1)) cs"
          by (simp add: drop_Cons' Suc_diff_le)
        with Cons.prems(4) Cons.IH[OF a b Cons.prems(3)] show ?thesis
          by simp
      qed
    qed
  qed
qed

lemma finditer_complete:
  "k \<le> j \<Longrightarrow> j < length s \<Longrightarrow> match_at p (drop j s) \<noteq> None \<Longrightarrow>
     (\<exists>g. (pos + j, g) \<in> set (finditer p pos k s))
     \<or> (\<exists>i g n. (i, g) \<in> set (finditer p pos k s)
           \<and> match_at p (drop (i - pos) s) = Some (g, n) \<and> i < pos + j \<and> pos + j < i + n)"
proof (induction s arbitrary: pos k j)
  case Nil
  then show ?case by simp
next
  case (Cons c cs)
  have step: "(\<exists>g. (pos + j, g) \<in> set (finditer p (pos + 1) k' cs))
     \<or> (\<exists>i g n. (i, g) \<in> set (finditer p (pos + 1) k' cs)
           \<and> match_at p (drop (i - pos) (c # cs)) = Some (g, n) \<and> i < pos + j \<and> pos + j < i + n)"
    if "0 < j" "k' \<le> j - 1" for k'
  proof -
    from that obtain j' where j: "j = Suc j'" by (cases j) auto
    with that Cons.prems have "k' \<le> j'" "j' < length cs" "match_at p (drop j' cs) \<noteq> None"
      by simp_all
    from Cons.IH[OF this, of "pos + 1"]
    consider g where "(pos + 1 + j', g) \<in> set (finditer p (pos + 1) k' cs)"
      | i g n where "(i, g) \<in> set (finditer p (pos + 1) k' cs)"
        "match_at p (drop (i - (pos + 1)) cs) = Some (g, n)" "i < pos + 1 + j'" "pos + 1 + j' < i + n"
      by blast
    then show ?thesis
    proof cases
      case 1
      then show ?thesis using j by auto
    next
      case 2
      from finditer_positions[OF 2(1)] have "pos + 1 \<le> i" by simp
      then have "drop (i - pos) (c # cs) = drop (i - (pos + 1)) cs"
        by (simp add: drop_Cons' Suc_diff_le)
      with 2 j show ?thesis
        by (intro disjI2 exI[of _ i] exI[of _ g] exI[of _ n]) simp
    qed
  qed
  show ?case
  proof (cases "0 < k")
    case True
    with Cons.prems have "0 < j" "k - 1 \<le> j - 1" by simp_all
    from step[OF this] True show ?thesis by simp
  next
    case False
    show ?thesis
    proof (cases "match_at p (c # cs)")
      case None
      with Cons.prems have "0 < j" by (cases j) auto
      from step[OF this, of 0] False None show ?thesis by simp
    next
      case (Some m)
      obtain g' n' where m: "m = (g', n')" by (cases m)
      have l: "finditer p pos k (c # cs) = (pos, g') # finditer p (pos + 1) (n' - 1) cs"
        using False Some m by simp
      consider "j = 0" | "0 < j" "j < n'" | "0 < j" "n' \<le> j" by linarith
      then show ?thesis
      proof cases
        case 1
        then show ?thesis unfolding l by auto
      next
        case 2
        show ?thesis
          unfolding l using 2 Some m
          by (intro disjI2 exI[of _ pos] exI[of _ g'] exI[of _ n']) simp
      next
        case 3
        then have "n' - 1 \<le> j - 1" by simp
        from step[OF 3(1) this] show ?thesis
          unfolding l by auto
      qed
    qed
  qed
qed

lemma count_by_position:
  "distinct (map fst ms) \<Longrightarrow> count_list (map snd ms) g = card {i. (i, g) \<in> set ms}"
proof (induction ms)
  case Nil
  then show ?case by simp
next
  case (Cons m ms)
  obtain i0 g0 where m: "m = (i0, g0)" by (cases m)
  have fin: "finite {i. (i, g) \<in> set ms}"
  proof (rule finite_subset)
    show "{i. (i, g) \<in> set ms} \<subseteq> fst ` set ms" by force
  qed simp
  from Cons.prems m have notin: "i0 \<notin> {i. (i, g) \<in> set ms}"
    by force
  have ih: "count_list (map snd ms) g = card {i. (i, g) \<in> set ms}"
    using Cons by simp
  show ?case
  proof (cases "g0 = g")
    case True
    then have "{i. (i, g) \<in> set (m # ms)} = insert i0 {i. (i, g) \<in> set ms}"
      using m by auto
    with fin notin ih True m show ?thesis by simp
  next
    case False
    then have "{i. (i, g) \<in> set (m # ms)} = {i. (i, g) \<in> set ms}"
      using m by auto
    with ih False m show ?thesis by simp
  qed
qed

lemma concat_order:
  "a < b \<Longrightarrow> b < length L \<Longrightarrow> x \<in> set (f (L ! a)) \<Longrightarrow> y \<in> set (f (L ! b))
    \<Longrightarrow> \<exists>xs ys zs. concat (map f L) = xs @ x # ys @ y # zs"
proof -
  assume ab: "a < b" and bl: "b < length L" and x: "x \<in> set (f (L ! a))" and y: "y \<in> set (f (L ! b))"
  from x obtain x1 x2 where fx: "f (L ! a) = x1 @ x # x2" by (meson split_list)
  from y obtain y1 y2 where fy: "f (L ! b) = y1 @ y # y2" by (meson split_list)
  have L1: "L = take a L @ L ! a # drop (Suc a) L"
    using ab bl by (simp add: id_take_nth_drop)
  have "b - Suc a < length (drop (Suc a) L)" using ab bl by simp
  from id_take_nth_drop[OF this]
  have L2: "drop (Suc a) L = take (b - Suc a) (drop (Suc a) L) @ L ! b # drop (Suc (b - Suc a)) (drop (Suc a) L)"
    using ab bl by simp
  have "concat (map f L) = concat (map f (take a L)) @ f (L ! a)
      @ concat (map f (take (b - Suc a) (drop (Suc a) L))) @ f (L ! b)
      @ concat (map f (drop (Suc (b - Suc a)) (drop (Suc a) L)))"
    by (subst L1, subst L2) simp
  then have "concat (map f L) = (concat (map f (take a L)) @ x1) @ x
      # (x2 @ concat (map f (take (b - Suc a) (drop (Suc a) L))) @ y1) @ y
      # (y2 @ concat (map f (drop (Suc (b - Suc a)) (drop (Suc a) L))))"
    by (simp add: fx fy)
  then show ?thesis by blast
qed

text \<open>
  Claim C8, as amended. The extractor returns the references grouped by kind, in the
  order of \<open>PATTERNS\<close>: all \<open>double_curly\<close> references, then all \<open>content_block\<close>,
  \<open>include_directive\<close> and \<open>sharedo_content\<close> references, then the
  \<open>data_attribute\<close> references. A reference of an earlier kind stands before every
  reference of a later kind in the result, wherever the two stand in the input. The
  references of one text pattern are the groups of its matches scanned from left to
  right: the positions of the listed matches increase strictly, each is a place of the
  input where the pattern matches with that group, no listed match begins inside another,
  and every place of the input where the pattern matches is a listed position or lies
  inside a listed match. A reference is listed once for each listed position at which it
  occurs, so one that occurs twice is listed twice.
\<close>

theorem extract_references_by_kind:
  "extract_references env content =
     (if content = [] then []
      else map (Pair ''double_curly'') (findall double_curly content)
         @ map (Pair ''content_block'') (findall content_block content)
         @ map (Pair ''include_directive'') (findall include_directive content)
         @ map (Pair ''sharedo_content'') (findall sharedo_content content)
         @ (if CHR ''<'' \<in> set content
            then (case data_content_controls env content of
                    Inl e \<Rightarrow> []
                  | Inr refs \<Rightarrow> map (Pair ''data_attribute'') (filter (\<lambda>ref. ref \<noteq> []) refs))
            else []))
   \<and> findall p content = map snd (finditer p 0 0 content)
   \<and> sorted_wrt (<) (map fst (finditer p 0 0 content))
   \<and> (\<forall>(i, g) \<in> set (finditer p 0 0 content).
         i < length content \<and> (\<exists>n. match_at p (drop i content) = Some (g, n)))
   \<and> (\<forall>(i, g) \<in> set (finditer p 0 0 content). \<forall>(j, h) \<in> set (finditer p 0 0 content).
         \<forall>n. i < j \<and> match_at p (drop i content) = Some (g, n) \<longrightarrow> i + n \<le> j)
   \<and> (\<forall>j < length content. match_at p (drop j content) \<noteq> None \<longrightarrow>
         (\<exists>g. (j, g) \<in> set (finditer p 0 0 content))
         \<or> (\<exists>(i, g) \<in> set (finditer p 0 0 content).
               \<exists>n. match_at p (drop i content) = Some (g, n) \<and> i < j \<and> j < i + n))
   \<and> (\<forall>g. count_list (findall p content) g = card {i. (i, g) \<in> set (finditer p 0 0 content)})
   \<and> (\<forall>a b. a < b \<and> b < length PATTERNS \<longrightarrow>
         (\<forall>(i, g) \<in> set (finditer (snd (PATTERNS ! a)) 0 0 content).
          \<forall>(j, h) \<in> set (finditer (snd (PATTERNS ! b)) 0 0 content).
            \<exists>xs ys zs. extract_references env content
              = xs @ (fst (PATTERNS ! a), g) # ys @ (fst (PATTERNS ! b), h) # zs))"
proof -
  let ?ms = "finditer p 0 0 content"
  have c1: "extract_references env content =
     (if content = [] then []
      else map (Pair ''double_curly'') (findall double_curly content)
         @ map (Pair ''content_block'') (findall content_block content)
         @ map (Pair ''include_directive'') (findall include_directive content)
         @ map (Pair ''sharedo_content'') (findall sharedo_content content)
         @ (if CHR ''<'' \<in> set content
            then (case data_content_controls env content of
                    Inl e \<Rightarrow> []
                  | Inr refs \<Rightarrow> map (Pair ''data_attribute'') (filter (\<lambda>ref. ref \<noteq> []) refs))
            else []))"
    by (simp add: extract_references_def PATTERNS_def)
  have c2: "findall p content = map snd ?ms"
    by (simp add: findall_def)
  have c3: "sorted_wrt (<) (map fst ?ms)"
    by (rule finditer_increasing)
  have c4: "\<forall>(i, g) \<in> set ?ms.
         i < length content \<and> (\<exists>n. match_at p (drop i content) = Some (g, n))"
    using finditer_positions[of _ _ p 0 0 content] by auto
  have c5: "\<forall>(i, g) \<in> set ?ms. \<forall>(j, h) \<in> set ?ms.
         \<forall>n. i < j \<and> match_at p (drop i content) = Some (g, n) \<longrightarrow> i + n \<le> j"
    using finditer_disjoint[of _ _ p 0 0 content] by auto
  have c6: "\<forall>j < length content. match_at p (drop j content) \<noteq> None \<longrightarrow>
         (\<exists>g. (j, g) \<in> set ?ms)
         \<or> (\<exists>(i, g) \<in> set ?ms.
               \<exists>n. match_at p (drop i content) = Some (g, n) \<and> i < j \<and> j < i + n)"
  proof (intro allI impI)
    fix j assume "j < length content" "match_at p (drop j content) \<noteq> None"
    from finditer_complete[OF _ this, of 0 0]
    show "(\<exists>g. (j, g) \<in> set ?ms)
         \<or> (\<exists>(i, g) \<in> set ?ms.
               \<exists>n. match_at p (drop i content) = Some (g, n) \<and> i < j \<and> j < i + n)"
      by auto
  qed
  have "distinct (map fst ?ms)"
    using c3 by (simp add: strict_sorted_iff)
  then have c7: "\<forall>g. count_list (findall p content) g = card {i. (i, g) \<in> set ?ms}"
    unfolding c2 by (simp add: count_by_position)
  have c8: "\<forall>a b. a < b \<and> b < length PATTERNS \<longrightarrow>
         (\<forall>(i, g) \<in> set (finditer (snd (PATTERNS ! a)) 0 0 content).
          \<forall>(j, h) \<in> set (finditer (snd (PATTERNS ! b)) 0 0 content).
            \<exists>xs ys zs. extract_references env content
              = xs @ (fst (PATTERNS ! a), g) # ys @ (fst (PATTERNS ! b), h) # zs)"
  proof (intro allI impI ballI, clarify)
    fix a b i g j h
    assume ab: "a < b" "b < length PATTERNS"
      and x: "(i, g) \<in> set (finditer (snd (PATTERNS ! a)) 0 0 content)"
      and y: "(j, h) \<in> set (finditer (snd (PATTERNS ! b)) 0 0 content)"
    let ?f = "\<lambda>(pattern_name, pattern). map (Pair pattern_name) (findall pattern content)"
    from x have ne: "content \<noteq> []" by auto
    from x have x': "(fst (PATTERNS ! a), g) \<in> set (?f (PATTERNS ! a))"
      by (cases "PATTERNS ! a") (force simp: findall_def)
    from y have y': "(fst (PATTERNS ! b), h) \<in> set (?f (PATTERNS ! b))"
      by (cases "PATTERNS ! b") (force simp: findall_def)
    from concat_order[OF ab x' y'] obtain xs ys zs where
      "concat (map ?f PATTERNS) = xs @ (fst (PATTERNS ! a), g) # ys @ (fst (PATTERNS ! b), h) # zs"
      by blast
    then have "extract_references env content
        = xs @ (fst (PATTERNS ! a), g) # ys @ (fst (PATTERNS ! b), h)
          # (zs @ (if CHR ''<'' \<in> set content
            then (case data_content_controls env content of
                    Inl e \<Rightarrow> []
                  | Inr refs \<Rightarrow> map (Pair ''data_attribute'') (filter (\<lambda>ref. ref \<noteq> []) refs))
            else []))"
      using ne by (simp add: extract_references_def)
    then show "\<exists>xs ys zs. extract_references env content
              = xs @ (fst (PATTERNS ! a), g) # ys @ (fst (PATTERNS ! b), h) # zs"
      by blast
  qed
  from c1 c2 c3 c4 c5 c6 c7 c8 show ?thesis
    by (intro conjI)
qed

theorem extract_references_by_kind_witness:
  "extract_references demo_env ''{{content:b}} @include(a) {{CONTENT:b}}''
     = [(''double_curly'', ''b''), (''double_curly'', ''b''), (''include_directive'', ''a'')]
   \<and> finditer double_curly 0 0 ''{{content:b}} @include(a) {{CONTENT:b}}''
     = [(0, ''b''), (26, ''b'')]
   \<and> sorted_wrt (<) (map fst (finditer double_curly 0 0 ''{{content:b}} @include(a) {{CONTENT:b}}''))
   \<and> match_at double_curly (drop 26 ''{{content:b}} @include(a) {{CONTENT:b}}'') = Some (''b'', 13)
   \<and> count_list (findall double_curly ''{{content:b}} @include(a) {{CONTENT:b}}'') ''b'' = 2"
proof -
  have a: "extract_references demo_env ''{{content:b}} @include(a) {{CONTENT:b}}''
     = [(''double_curly'', ''b''), (''double_curly'', ''b''), (''include_directive'', ''a'')]"
    by code_simp
  have b: "finditer double_curly 0 0 ''{{content:b}} @include(a) {{CONTENT:b}}''
     = [(0, ''b''), (26, ''b'')]"
    by code_simp
  have c: "match_at double_curly (drop 26 ''{{content:b}} @include(a) {{CONTENT:b}}'') = Some (''b'', 13)"
    by code_simp
  have d: "count_list (findall double_curly ''{{content:b}} @include(a) {{CONTENT:b}}'') ''b'' = 2"
    by code_simp
  from a b c d
    extract_references_by_kind[of demo_env "''{{content:b}} @include(a) {{CONTENT:b}}''" double_curly]
  show ?thesis
    by simp
qed

text \<open>
  The counterexample to C8 as stated: in the input the \<open>include_directive\<close> reference
  stands first (at index 0) and the \<open>double_curly\<close> reference second (at index 12);
  the extractor returns them in the other order.
\<close>

theorem first_occurrence_order_counterexample:
  "extract_references demo_env ''@include(a) {{content:b}}''
     = [(''double_curly'', ''b''), (''include_directive'', ''a'')]
   \<and> finditer include_directive 0 0 ''@include(a) {{content:b}}'' = [(0, ''a'')]
   \<and> finditer double_curly 0 0 ''@include(a) {{content:b}}'' = [(12, ''b'')]"
  by code_simp

section \<open>Properties of the structure parser\<close>

lemmas tables_induct = process_nested_tables_process_tables_process_cells.induct

lemma tables_total: "All process_nested_tables_process_tables_process_cells_dom"
  by (relation "measures
        [\<lambda>x. case x of
            Inl (doc, ps, soup, d) \<Rightarrow> 3 * nat (MAX_NESTING_DEPTH - d)
          | Inr (Inl (doc, ps, tables, d)) \<Rightarrow> 3 * nat (MAX_NESTING_DEPTH - 1 - d) + 2
          | Inr (Inr (doc, ps, cells, d)) \<Rightarrow> 3 * nat (MAX_NESTING_DEPTH - 1 - d) + 1,
         \<lambda>x. case x of
            Inl (doc, ps, soup, d) \<Rightarrow> 0
          | Inr (Inl (doc, ps, tables, d)) \<Rightarrow> length tables
          | Inr (Inr (doc, ps, cells, d)) \<Rightarrow> length cells]")
    (auto simp: MAX_NESTING_DEPTH_def)

lemma table_nodes_ok:
  "list_all table_node_ok (fst (process_nested_tables doc ps soup d))"
  "d < MAX_NESTING_DEPTH \<Longrightarrow> list_all table_node_ok (fst (process_tables doc ps tables d))"
  "list_all table_node_ok (fst (process_cells doc ps cells d))"
proof (induction doc ps soup d and doc ps tables d and doc ps cells d rule: tables_induct)
  case (1 doc ps soup d)
  then show ?case
    by (subst process_nested_tables.simps) simp
next
  case (2 doc ps d)
  show ?case by (simp add: process_tables.simps)
next
  case (3 doc ps table tables d)
  define ps1 where "ps1 = ps\<lparr>tables_parsed := tables_parsed ps + 1\<rparr>"
  define r where "r = (if find_all doc table [''table''] \<noteq> []
               then process_cells doc (ps1\<lparr>nested_structures := nested_structures ps1 + 1\<rparr>)
                      (find_all doc table [''td'', ''th'']) d
               else ([], doc, ps1))"
  obtain table_children doc1 ps2 where r: "r = (table_children, doc1, ps2)"
    by (cases r)
  have kids: "list_all table_node_ok table_children"
  proof (cases "find_all doc table [''table''] \<noteq> []")
    case True
    from 3(1)[OF ps1_def refl refl refl True] True r show ?thesis
      by (simp add: r_def)
  next
    case False
    with r show ?thesis by (simp add: r_def)
  qed
  define doc4 where "doc4 = fold (\<lambda>cell. preserve_cell_content cell (d + 1))
       (find_all (set_attr table ''data-structure-type''
                         (if find_all doc table [''table''] \<noteq> [] then ''nested-table'' else ''simple-table'')
            (set_attr table ''data-nesting-level'' (str_of_int (d + 1)) doc1)) table [''td'', ''th''])
       (set_attr table ''data-structure-type''
                         (if find_all doc table [''table''] \<noteq> [] then ''nested-table'' else ''simple-table'')
            (set_attr table ''data-nesting-level'' (str_of_int (d + 1)) doc1))"
  have e1: "(table_children, (doc1, ps2)) =
      (if find_all doc table [''table''] \<noteq> []
       then process_cells doc (ps1\<lparr>nested_structures := nested_structures ps1 + 1\<rparr>)
              (find_all doc table [''td'', ''th'']) d
       else ([], doc, ps1))"
    using r by (simp add: r_def)
  have rest: "list_all table_node_ok (fst (process_tables doc4 ps2 tables d))"
    unfolding doc4_def
    by (rule 3(2)[OF ps1_def refl refl refl e1 refl refl refl refl refl 3(3)])
  have res: "fst (process_tables doc ps (table # tables) d) =
      Structure_node TABLE (d + 1) (Content_tag table) table_children
        (attrs_at doc table) (extract_formatting doc table) None
      # fst (process_tables doc4 ps2 tables d)"
    by (subst process_tables.simps)
      (simp add: Let_def ps1_def[symmetric] r[unfolded r_def] doc4_def split: prod.splits)
  have "list_all (depth_within MAX_NESTING_DEPTH) table_children"
    and "concat (map find_unclosed_conditionals table_children) = []"
    using kids by (induction table_children) (auto simp: table_node_ok_def)
  then have "table_node_ok (Structure_node TABLE (d + 1) (Content_tag table) table_children
        (attrs_at doc table) (extract_formatting doc table) None)"
    using 3(3) by (simp add: table_node_ok_def)
  with rest show ?case
    unfolding res by simp
next
  case (4 doc ps d)
  show ?case by (simp add: process_cells.simps)
next
  case (5 doc ps cell cells d)
  show ?case
  proof (cases "find_all_children doc cell [''table''] \<noteq> []")
    case True
    obtain nodes doc1 ps1 where a: "process_nested_tables doc ps cell (d + 1) = (nodes, doc1, ps1)"
      by (cases "process_nested_tables doc ps cell (d + 1)")
    have n1: "list_all table_node_ok nodes"
      using 5(1)[OF True] a by simp
    have n2: "list_all table_node_ok (fst (process_cells doc1 ps1 cells d))"
      by (rule 5(2)[OF True a[symmetric] refl])
    show ?thesis
      using True n1 n2
      by (subst process_cells.simps) (auto simp: a split: prod.splits)
  next
    case False
    with 5(3) show ?thesis
      by (subst process_cells.simps) simp
  qed
qed

text \<open>
  What holds of the depth argument. The walk over nested tables terminates on every
  document: every argument tuple of \<open>_process_nested_tables\<close> lies in the domain of
  the recursion, by a measure that is \<open>MAX_NESTING_DEPTH - depth\<close> and does not look at
  the document. A call with \<open>depth \<ge> 10\<close> logs the warning and returns without
  touching the document, the statistics or the tree. Every node the walk makes, at any
  level of the tree it returns, has a depth of at most 10. The walk has no way to fail: its
  result is always a list of nodes, a document and the statistics. In the example the walk
  starts at depth 9 on a table in a cell of a table: the outer table gets a node of depth
  10, the walk into its cell stops with the warning, and a whole parse of that document
  from depth 0 returns its tree.
\<close>

lemma depth_argument_bounded:
  "process_nested_tables_process_tables_process_cells_dom (Inl (doc, ps, soup, d))
   \<and> (MAX_NESTING_DEPTH \<le> d \<longrightarrow>
        process_nested_tables doc ps soup d
          = ([], doc, ps\<lparr>warnings_logged := warnings_logged ps
                @ [''Max table nesting depth 10 reached'']\<rparr>))
   \<and> list_all (depth_within MAX_NESTING_DEPTH) (fst (process_nested_tables doc ps soup d))"
proof -
  have "list_all (depth_within MAX_NESTING_DEPTH) (fst (process_nested_tables doc ps soup d))"
    using table_nodes_ok(1)[of doc ps soup d]
    by (induction "fst (process_nested_tables doc ps soup d)") (auto simp: table_node_ok_def list_all_iff)
  moreover have "str_of_int MAX_NESTING_DEPTH = ''10''"
    by (simp add: MAX_NESTING_DEPTH_def str_of_int_def)
  ultimately show ?thesis
    using tables_total by (simp add: process_nested_tables.simps)
qed

lemma depth_argument_bounded_example:
  "process_nested_tables_process_tables_process_cells_dom
     (Inl (nested_tables_doc, new_parser, [], 9))
   \<and> process_nested_tables nested_tables_doc new_parser [0, 0, 0] 10
       = ([], nested_tables_doc,
          new_parser\<lparr>warnings_logged := [''Max table nesting depth 10 reached'']\<rparr>)
   \<and> fst (process_nested_tables nested_tables_doc new_parser [] 9)
       = [Structure_node TABLE 10 (Content_tag [0]) [] [] [] None]
   \<and> warnings_logged (snd (snd (process_nested_tables nested_tables_doc new_parser [] 9)))
       = [''Max table nesting depth 10 reached'']
   \<and> depth_within MAX_NESTING_DEPTH (Structure_node TABLE 10 (Content_tag [0]) [] [] [] None)
   \<and> map_sum id (\<lambda>(root, html). map node_depth (node_children root))
         (fst (parse_document_structure demo_soup new_parser
            ''<table><tr><td><table><tr><td>x</td></tr></table></td></tr></table>''))
       = Inr [1]"
proof -
  have a: "fst (process_nested_tables nested_tables_doc new_parser [] 9)
       = [Structure_node TABLE 10 (Content_tag [0]) [] [] [] None]"
    by code_simp
  have b: "warnings_logged (snd (snd (process_nested_tables nested_tables_doc new_parser [] 9)))
       = [''Max table nesting depth 10 reached'']"
    by code_simp
  have c: "map_sum id (\<lambda>(root, html). map node_depth (node_children root))
         (fst (parse_document_structure demo_soup new_parser
            ''<table><tr><td><table><tr><td>x</td></tr></table></td></tr></table>''))
       = Inr [1]"
    by code_simp
  have d: "warnings_logged new_parser = []"
    by (simp add: new_parser_def)
  show ?thesis
    using a b c d
      depth_argument_bounded[of nested_tables_doc new_parser "[]" 9]
      depth_argument_bounded[of nested_tables_doc new_parser "[0, 0, 0]" 10]
    by (simp add: MAX_NESTING_DEPTH_def)
qed

text \<open>The walk changes attributes only, so what \<open>find_all\<close> finds by tag name is
  the same before, during and after it.\<close>

lemma node_at_shape: "node_at (shape d) p = map_option shape (node_at d p)"
  by (induction d p rule: node_at.induct) auto

lemma descendants_shape:
  "descendants (shape d) = descendants d"
  "descendants_from i (map shape ks) = descendants_from i ks"
  by (induction d and i ks rule: descendants_descendants_from.induct) auto

lemma is_tag_shape: "is_tag names (map_option shape x) = is_tag names x"
  by (cases x; simp add: is_tag_def) (rename_tac d, case_tac d, auto)

lemma find_all_shape: "find_all (shape doc) p names = find_all doc p names"
  by (cases "node_at doc p")
    (auto simp: find_all_def subtree_paths_def node_at_shape is_tag_shape descendants_shape)

lemma find_all_children_shape:
  "find_all_children (shape doc) p names = find_all_children doc p names"
  by (cases "node_at doc p"; simp add: find_all_children_def node_at_shape is_tag_shape)
     (rename_tac d, case_tac d, auto simp: node_at_shape is_tag_shape)

lemma same_shape_find_all:
  "shape doc' = shape doc \<Longrightarrow> find_all doc' p names = find_all doc p names"
  by (metis find_all_shape)

lemma same_shape_find_all_children:
  "shape doc' = shape doc \<Longrightarrow> find_all_children doc' p names = find_all_children doc p names"
  by (metis find_all_children_shape)

lemma shape_change_at:
  "(\<And>d. shape (f d) = shape d) \<Longrightarrow> shape (change_at f p doc) = shape doc"
proof (induction f p doc rule: change_at.induct)
  case (3 f i p t a ks)
  show ?case
  proof (cases "i < length ks")
    case True
    have "shape (change_at f p (ks ! i)) = shape (ks ! i)"
      by (rule 3(1)[OF True 3(2)])
    then have "map shape (ks[i := change_at f p (ks ! i)]) = map shape ks"
      using True by (simp add: map_update list_update_same_conv)
    with True show ?thesis by simp
  next
    case False
    then show ?thesis by simp
  qed
qed simp_all

lemma shape_set_attr: "shape (set_attr p name v doc) = shape doc"
  unfolding set_attr_def by (rule shape_change_at) (simp split: dom.splits)

lemma shape_fold_set_attr:
  "shape (fold (\<lambda>e. set_attr e name v) ps doc) = shape doc"
  by (induction ps arbitrary: doc) (simp_all add: shape_set_attr)

lemma shape_preserve_cell_content: "shape (preserve_cell_content cell d doc) = shape doc"
  by (simp add: preserve_cell_content_def Let_def shape_set_attr shape_fold_set_attr)

lemma shape_fold_preserve:
  "shape (fold (\<lambda>cell. preserve_cell_content cell d) cells doc) = shape doc"
  by (induction cells arbitrary: doc) (simp_all add: shape_preserve_cell_content)

lemma walk_keeps_shape:
  "shape (fst (snd (process_nested_tables doc ps soup d))) = shape doc"
  "shape (fst (snd (process_tables doc ps tables d))) = shape doc"
  "shape (fst (snd (process_cells doc ps cells d))) = shape doc"
proof (induction doc ps soup d and doc ps tables d and doc ps cells d rule: tables_induct)
  case (1 doc ps soup d)
  then show ?case
    by (subst process_nested_tables.simps) simp
next
  case (2 doc ps d)
  show ?case by (simp add: process_tables.simps)
next
  case (3 doc ps table tables d)
  define ps1 where "ps1 = ps\<lparr>tables_parsed := tables_parsed ps + 1\<rparr>"
  define r where "r = (if find_all doc table [''table''] \<noteq> []
               then process_cells doc (ps1\<lparr>nested_structures := nested_structures ps1 + 1\<rparr>)
                      (find_all doc table [''td'', ''th'']) d
               else ([], doc, ps1))"
  obtain table_children doc1 ps2 where r: "r = (table_children, doc1, ps2)"
    by (cases r)
  have kids: "shape doc1 = shape doc"
  proof (cases "find_all doc table [''table''] \<noteq> []")
    case True
    from 3(1)[OF ps1_def refl refl refl True] True r show ?thesis
      by (simp add: r_def)
  next
    case False
    with r show ?thesis by (simp add: r_def)
  qed
  define doc4 where "doc4 = fold (\<lambda>cell. preserve_cell_content cell (d + 1))
       (find_all (set_attr table ''data-structure-type''
                         (if find_all doc table [''table''] \<noteq> [] then ''nested-table'' else ''simple-table'')
            (set_attr table ''data-nesting-level'' (str_of_int (d + 1)) doc1)) table [''td'', ''th''])
       (set_attr table ''data-structure-type''
                         (if find_all doc table [''table''] \<noteq> [] then ''nested-table'' else ''simple-table'')
            (set_attr table ''data-nesting-level'' (str_of_int (d + 1)) doc1))"
  have e1: "(table_children, (doc1, ps2)) =
      (if find_all doc table [''table''] \<noteq> []
       then process_cells doc (ps1\<lparr>nested_structures := nested_structures ps1 + 1\<rparr>)
              (find_all doc table [''td'', ''th'']) d
       else ([], doc, ps1))"
    using r by (simp add: r_def)
  have rest: "shape (fst (snd (process_tables doc4 ps2 tables d))) = shape doc4"
    unfolding doc4_def
    by (rule 3(2)[OF ps1_def refl refl refl e1 refl refl refl refl refl])
  have d4: "shape doc4 = shape doc"
    unfolding doc4_def by (simp add: shape_fold_preserve shape_set_attr kids)
  have res: "fst (snd (process_tables doc ps (table # tables) d)) =
      fst (snd (process_tables doc4 ps2 tables d))"
    by (subst process_tables.simps)
      (simp add: Let_def ps1_def[symmetric] r[unfolded r_def] doc4_def split: prod.splits)
  show ?case
    unfolding res using rest d4 by simp
next
  case (4 doc ps d)
  show ?case by (simp add: process_cells.simps)
next
  case (5 doc ps cell cells d)
  show ?case
  proof (cases "find_all_children doc cell [''table''] \<noteq> []")
    case True
    obtain nodes doc1 ps1 where a: "process_nested_tables doc ps cell (d + 1) = (nodes, doc1, ps1)"
      by (cases "process_nested_tables doc ps cell (d + 1)")
    have n1: "shape doc1 = shape doc"
      using 5(1)[OF True] a by simp
    have n2: "shape (fst (snd (process_cells doc1 ps1 cells d))) = shape doc1"
      by (rule 5(2)[OF True a[symmetric] refl])
    show ?thesis
      using True n1 n2
      by (subst process_cells.simps) (auto simp: a split: prod.splits)
  next
    case False
    with 5(3) show ?thesis
      by (subst process_cells.simps) simp
  qed
qed

text \<open>
  The loop over the cells of a table, at a depth below 9: every cell of the list that
  holds a table starts a walk, whatever stands before it in the list and however deep the
  cell lies below the table, and the first table in the cell gets a node two above the
  depth of the loop.
\<close>

lemma first_table_node:
  assumes "d < MAX_NESTING_DEPTH"
  shows "\<exists>kids a f rest. fst (process_tables doc ps (t # ts) d)
           = Structure_node TABLE (d + 1) (Content_tag t) kids a f None # rest"
  by (subst process_tables.simps) (simp add: Let_def split: prod.splits)

lemma deep_cells_walked:
  assumes "c \<in> set cells" and "find_all_children doc c [''table''] = t # ts"
    and "d + 1 < MAX_NESTING_DEPTH"
  shows "\<exists>n \<in> set (fst (process_cells doc ps cells d)).
           node_content n = Content_tag t \<and> node_depth n = d + 2"
  using assms(1,2)
proof (induction cells arbitrary: doc ps)
  case Nil
  then show ?case by simp
next
  case (Cons cell cells)
  show ?case
  proof (cases "find_all_children doc cell [''table''] \<noteq> []")
    case True
    obtain nodes doc1 ps1 where a: "process_nested_tables doc ps cell (d + 1) = (nodes, doc1, ps1)"
      by (cases "process_nested_tables doc ps cell (d + 1)")
    have sh: "shape doc1 = shape doc"
      using walk_keeps_shape(1)[of doc ps cell "d + 1"] a by simp
    have res: "fst (process_cells doc ps (cell # cells) d) = nodes @ fst (process_cells doc1 ps1 cells d)"
      using True by (subst process_cells.simps) (simp add: a split: prod.splits)
    show ?thesis
    proof (cases "c = cell")
      case c: True
      have "nodes = fst (process_tables doc ps (t # ts) (d + 1))"
        using a assms(3) Cons.prems(2) c
        by (subst (asm) process_nested_tables.simps) auto
      with first_table_node[OF assms(3), of doc ps t ts] obtain kids at f rest where
        "nodes = Structure_node TABLE (d + 1 + 1) (Content_tag t) kids at f None # rest"
        by auto
      then show ?thesis
        unfolding res by simp
    next
      case False
      with Cons.prems have "c \<in> set cells" by simp
      moreover have "find_all_children doc1 c [''table''] = t # ts"
        using Cons.prems(2) same_shape_find_all_children[OF sh] by simp
      ultimately have "\<exists>n \<in> set (fst (process_cells doc1 ps1 cells d)).
           node_content n = Content_tag t \<and> node_depth n = d + 2"
        by (rule Cons.IH)
      then show ?thesis
        unfolding res by auto
    qed
  next
    case False
    with Cons.prems have "c \<noteq> cell" by auto
    with Cons.prems have "c \<in> set cells" by simp
    from Cons.IH[OF this Cons.prems(2)] False show ?thesis
      by (subst process_cells.simps) simp
  qed
qed

lemma outer_table_children:
  assumes "d < MAX_NESTING_DEPTH" and "find_all_children doc soup [''table''] = [t]"
    and "find_all doc t [''table''] \<noteq> []"
  shows "\<exists>top. fst (process_nested_tables doc ps soup d) = [top]
           \<and> node_depth top = d + 1 \<and> node_content top = Content_tag t
           \<and> node_children top
               = fst (process_cells doc
                       (ps\<lparr>tables_parsed := tables_parsed ps + 1,
                            nested_structures := nested_structures ps + 1\<rparr>)
                       (find_all doc t [''td'', ''th'']) d)"
proof -
  have "process_nested_tables doc ps soup d = process_tables doc ps [t] d"
    using assms(1,2) by (subst process_nested_tables.simps) simp
  then show ?thesis
    using assms(3) by (simp add: process_tables.simps Let_def split: prod.splits)
qed

lemma eleven_level: "nesting_level eleven_tables (replicate 31 0) = 11"
  by code_simp

lemma eleven_top: "find_all_children eleven_tables [] [''table''] = [[0]]"
  by code_simp

lemma eleven_nested: "find_all eleven_tables [0] [''table''] \<noteq> []"
  by code_simp

lemma eleven_cell: "replicate 30 0 \<in> set (find_all eleven_tables [0] [''td'', ''th''])"
  by code_simp

lemma eleven_inner: "find_all_children eleven_tables (replicate 30 0) [''table''] = [replicate 31 0]"
  by code_simp

text \<open>
  Claim C9 at a document of eleven nested tables. The depth argument is not the nesting
  level. The walk of a table goes through all the cells below it, also those of the
  tables nested in it, and starts a walk at the table's depth plus one in every cell that
  holds a table. The innermost table is nested 11 levels deep, and the walk does not stop
  before it: the walk from depth 0 returns the node of the outermost table, of depth 1,
  and among the children of that node is a node for the innermost table, of depth 2. It
  is made by the walk started in the cell that holds the innermost table, which is found
  among the cells of the outermost table.
\<close>

theorem deep_table_still_walked:
  "nesting_level eleven_tables (replicate 31 0) = 11
   \<and> (\<exists>top n. fst (process_nested_tables eleven_tables new_parser [] 0) = [top]
         \<and> node_content top = Content_tag [0] \<and> node_depth top = 1
         \<and> n \<in> set (node_children top)
         \<and> node_content n = Content_tag (replicate 31 0) \<and> node_depth n = 2)"
proof -
  have d0: "(0::int) < MAX_NESTING_DEPTH" and d1: "(0::int) + 1 < MAX_NESTING_DEPTH"
    by (simp_all add: MAX_NESTING_DEPTH_def)
  from outer_table_children[OF d0 eleven_top eleven_nested, of new_parser]
  obtain top where top: "fst (process_nested_tables eleven_tables new_parser [] 0) = [top]"
    "node_depth top = 1" "node_content top = Content_tag [0]"
    "node_children top
       = fst (process_cells eleven_tables
               (new_parser\<lparr>tables_parsed := tables_parsed new_parser + 1,
                    nested_structures := nested_structures new_parser + 1\<rparr>)
               (find_all eleven_tables [0] [''td'', ''th'']) 0)"
    by auto
  from deep_cells_walked[OF eleven_cell eleven_inner d1]
  obtain n where "n \<in> set (node_children top)" "node_content n = Content_tag (replicate 31 0)"
    "node_depth n = 2"
    unfolding top(4) by auto
  with top eleven_level show ?thesis
    by blast
qed


text \<open>
  Claim C2 at its two inputs. Neither contains \<open><\<close>, so both are parsed as plain text,
  which never adds a node to the root. For \<open>{if X} A {endif}\<close> the validation is valid
  with no error, as claimed. For \<open>{if X} A\<close> the validation is valid with no error
  too: the unclosed conditional is not reported. The same holds on the HTML path for the
  paragraphs \<open>{% if X %}\<close> and \<open>A\<close>: the conditional stays on the stack and never
  reaches the tree.
\<close>

theorem unclosed_conditional_not_reported:
  "fst (parse_document_structure demo_soup new_parser ''{if X} A'')
     = Inr (document_root, ''{if X} A'')
   \<and> is_valid (validate_structure document_root) = True
   \<and> errors (validate_structure document_root) = []
   \<and> fst (parse_document_structure demo_soup new_parser ''<p>{% if X %}</p><p>A</p>'')
     = Inr (document_root, [])
   \<and> fst (parse_document_structure demo_soup new_parser ''{if X} A {endif}'')
     = Inr (document_root,
            ''<!-- CONDITIONAL: {if X} A {endif} -->'' @ [CHR 0x0A] @ ''{if X} A {endif}'')"
  by code_simp

lemma plain_conditional_unclosed:
  "plain_conditional n \<Longrightarrow> find_unclosed_conditionals n = []"
  by (cases n) (auto simp: plain_conditional_def split: option.splits)

lemma plain_mark_else: "plain_conditional n \<Longrightarrow> plain_conditional (mark_else n)"
  by (cases n) (auto simp: plain_conditional_def mark_else_def split: option.splits)

lemma conditional_loop_plain:
  "list_all plain_conditional conditional_stack \<Longrightarrow> list_all plain_conditional appended \<Longrightarrow>
   list_all plain_conditional (fst (snd (conditional_loop text_nodes doc ps conditional_stack appended)))"
proof (induction text_nodes arbitrary: doc ps conditional_stack appended)
  case Nil
  then show ?case by simp
next
  case (Cons text_node text_nodes)
  have butlast_ok: "list_all plain_conditional (butlast conditional_stack)"
    using Cons.prems(1) by (auto simp: list_all_iff dest: in_set_butlastD)
  have last_ok: "conditional_stack \<noteq> [] \<Longrightarrow> plain_conditional (last conditional_stack)"
    using Cons.prems(1) by (auto simp: list_all_iff)
  show ?case
    using Cons.prems butlast_ok last_ok
    by (auto simp: Let_def plain_conditional_def[of "Structure_node _ _ _ _ _ _ _"] plain_mark_else
        split: option.splits intro!: Cons.IH)
qed

lemma mixed_loop_unclosed:
  "mixed_loop cond_divs doc ps parent_depth = (nodes, doc', ps') \<Longrightarrow>
   list_all (\<lambda>n. find_unclosed_conditionals n = []) nodes"
proof (induction cond_divs arbitrary: doc ps nodes doc' ps')
  case Nil
  then show ?case by simp
next
  case (Cons cond_div cond_divs)
  from Cons.prems show ?case
    by (auto simp: Let_def split: prod.splits if_splits dest: Cons.IH)
qed

lemma plain_unclosed:
  "list_all plain_conditional ns \<Longrightarrow> list_all (\<lambda>n. find_unclosed_conditionals n = []) ns"
  by (induction ns) (auto simp: plain_conditional_unclosed)

lemma tables_unclosed:
  "list_all table_node_ok ns \<Longrightarrow> list_all (\<lambda>n. find_unclosed_conditionals n = []) ns"
  by (induction ns) (auto simp: table_node_ok_def)

lemma concat_unclosed:
  "list_all (\<lambda>n. find_unclosed_conditionals n = []) ns \<Longrightarrow>
   concat (map find_unclosed_conditionals ns) = []"
  by (induction ns) auto

text \<open>
  More is true: no input at all makes the validation report an unclosed conditional.
  Every conditional the parser puts into a tree has been closed by an \<open>endif\<close>, and no
  code sets the key \<open>closed\<close> that \<open>_find_unclosed_conditionals\<close> reads.
\<close>

theorem validation_never_reports_unclosed:
  assumes "fst (parse_document_structure env ps content) = Inr (root, enhanced_html)"
  shows "find_unclosed_conditionals root = []
    \<and> is_valid (validate_structure root) \<and> errors (validate_structure root) = []"
proof -
  have html: "list_all (\<lambda>n. find_unclosed_conditionals n = []) nodes"
    if "fst (parse_html_structure env ps content) = Inr (nodes, h)" for nodes h
  proof -
    obtain table_nodes doc1 ps1 where t: "process_nested_tables (parse_html env content) ps [] 0
        = (table_nodes, doc1, ps1)"
      by (cases "process_nested_tables (parse_html env content) ps [] 0")
    have t_ok: "list_all (\<lambda>n. find_unclosed_conditionals n = []) table_nodes"
      using table_nodes_ok(1)[of "parse_html env content" ps "[]" 0] t
      by (simp add: tables_unclosed)
    obtain stack appended doc2 ps2 where l:
      "conditional_loop (find_all_strings doc1) doc1 ps1 [] [] = (stack, appended, doc2, ps2)"
      by (cases "conditional_loop (find_all_strings doc1) doc1 ps1 [] []")
    have c_ok: "list_all (\<lambda>n. find_unclosed_conditionals n = []) appended"
      using conditional_loop_plain[of "[]" "[]" "find_all_strings doc1" doc1 ps1] l
      by (simp add: plain_unclosed)
    from that show ?thesis
      using t_ok c_ok
      by (auto simp: parse_html_structure_def process_conditional_blocks_def
          process_mixed_content_def t l
          split: prod.splits sum.splits if_splits dest: mixed_loop_unclosed)
  qed
  have "find_unclosed_conditionals root = []"
  proof (cases "content \<noteq> [] \<and> CHR ''<'' \<in> set content \<and> CHR ''>'' \<in> set content")
    case True
    obtain r ps1 where p: "parse_html_structure env ps content = (r, ps1)"
      by (cases "parse_html_structure env ps content")
    from assms True p obtain nodes where r: "r = Inr (nodes, enhanced_html)"
      and root: "root = Structure_node SECTION 0 (Content_str ''document_root'') nodes [] [] None"
      by (auto simp: parse_document_structure_def split: sum.splits prod.splits)
    from html[of nodes enhanced_html] p r
    have "concat (map find_unclosed_conditionals nodes) = []"
      by (simp add: concat_unclosed)
    with root show ?thesis
      by simp
  next
    case False
    with assms have "root = document_root"
      by (auto simp: parse_document_structure_def parse_text_structure_def
          split: if_splits prod.splits)
    then show ?thesis
      by (simp add: document_root_def)
  qed
  then show ?thesis
    by (simp add: validate_structure_def Let_def)
qed

end
